theory Spec2Isabelle
  imports Complex_Main "HOL-Library.Sublist"
begin

section \<open>The retry module (\<open>lib/retry\<close>)\<close>

text \<open>
  JavaScript strings are modelled as \<^typ>\<open>string\<close> (ASCII text), numbers that hold HTTP
  status codes and millisecond clock values as \<^typ>\<open>int\<close>, and delays, which the
  source computes with \<open>Math.pow\<close>, \<open>Math.random\<close> and \<open>Math.min\<close>, as \<^typ>\<open>real\<close>.
\<close>

subsection \<open>Data\<close>

text \<open>The \<open>ErrorTypes\<close> table: one constructor per key of the object.\<close>

datatype ErrorTypes =
    AUTH_ERROR
  | RATE_LIMIT
  | NETWORK_ERROR
  | SERVER_ERROR
  | VALIDATION_ERROR
  | TIMEOUT_ERROR
  | UNKNOWN_ERROR

text \<open>
  A fetch \<open>Response\<close> as far as the module reads it: \<open>response.status\<close> and
  \<open>response.headers.get('retry-after')\<close> (\<open>None\<close> when the header is missing).
\<close>

record response =
  status :: int
  retry_after :: "string option"

text \<open>
  A thrown \<open>Error\<close>: its \<open>message\<close> and the \<open>response\<close> that \<open>fetchWithRetry\<close>
  attaches to it (\<open>None\<close> when there is none).
\<close>

record js_error =
  message :: string
  response :: "response option"

subsection \<open>\<open>classifyError\<close>\<close>

text \<open>\<open>String.prototype.toLowerCase\<close> on ASCII text.\<close>

definition toLowerCase_char :: "char \<Rightarrow> char" where
  "toLowerCase_char c =
     (if 65 \<le> (of_char c :: nat) \<and> (of_char c :: nat) \<le> 90
      then char_of ((of_char c :: nat) + 32) else c)"

definition toLowerCase :: "string \<Rightarrow> string" where
  "toLowerCase s = map toLowerCase_char s"

text \<open>\<open>s.includes(t)\<close>: \<open>t\<close> occurs in \<open>s\<close> as a contiguous substring.\<close>

definition str_includes :: "string \<Rightarrow> string \<Rightarrow> bool" where
  "str_includes s t = sublist t s"

text \<open>
  The source, lines 190 to 216. \<open>(error.message || '')\<close> is the message itself for a
  string message, the empty string being the only falsy string.
\<close>

definition classifyError :: "js_error \<Rightarrow> response option \<Rightarrow> ErrorTypes" where
  "classifyError error resp =
     (let by_message =
        (let msg = toLowerCase (message error) in
         if str_includes msg ''timeout'' \<or> str_includes msg ''timed out'' then TIMEOUT_ERROR
         else if str_includes msg ''network'' \<or> str_includes msg ''fetch''
                 \<or> str_includes msg ''connection''
           then NETWORK_ERROR
         else if str_includes msg ''api key'' \<or> str_includes msg ''unauthorized''
                 \<or> str_includes msg ''authentication''
           then AUTH_ERROR
         else if str_includes msg ''rate'' \<or> str_includes msg ''limit''
                 \<or> str_includes msg ''quota''
           then RATE_LIMIT
         else UNKNOWN_ERROR)
      in case resp of
           None \<Rightarrow> by_message
         | Some r \<Rightarrow>
             if status r = 401 \<or> status r = 403 then AUTH_ERROR
             else if status r = 429 then RATE_LIMIT
             else if status r = 400 then VALIDATION_ERROR
             else if status r \<ge> 500 \<and> status r < 600 then SERVER_ERROR
             else by_message)"

text \<open>
  The classification as the specification words it: a table from status codes to
  classes, consulted first, then an ordered list of rules, each a set of substrings and
  the class they stand for, then the default.
\<close>

definition status_class :: "int \<Rightarrow> ErrorTypes option" where
  "status_class s =
     (if s \<in> {401, 403} then Some AUTH_ERROR
      else if s = 429 then Some RATE_LIMIT
      else if s = 400 then Some VALIDATION_ERROR
      else if s \<in> {500..599} then Some SERVER_ERROR
      else None)"

definition message_rules :: "(string list \<times> ErrorTypes) list" where
  "message_rules =
     [([''timeout'', ''timed out''], TIMEOUT_ERROR),
      ([''network'', ''fetch'', ''connection''], NETWORK_ERROR),
      ([''api key'', ''unauthorized'', ''authentication''], AUTH_ERROR),
      ([''rate'', ''limit'', ''quota''], RATE_LIMIT)]"

definition message_class :: "string \<Rightarrow> ErrorTypes" where
  "message_class m =
     (case find (\<lambda>rule. list_ex (\<lambda>t. sublist t (toLowerCase m)) (fst rule)) message_rules of
        Some rule \<Rightarrow> snd rule
      | None \<Rightarrow> UNKNOWN_ERROR)"

definition classify_spec :: "js_error \<Rightarrow> response option \<Rightarrow> ErrorTypes" where
  "classify_spec error resp =
     (case Option.bind resp (\<lambda>r. status_class (status r)) of
        Some c \<Rightarrow> c
      | None \<Rightarrow> message_class (message error))"

subsection \<open>\<open>isRetryable\<close>\<close>

text \<open>\<open>retryableTypes.indexOf(errorType) !== -1\<close> is membership in the array.\<close>

definition retryableTypes :: "ErrorTypes list" where
  "retryableTypes = [RATE_LIMIT, NETWORK_ERROR, SERVER_ERROR, TIMEOUT_ERROR]"

definition isRetryable :: "ErrorTypes \<Rightarrow> bool" where
  "isRetryable errorType = (errorType \<in> set retryableTypes)"

subsection \<open>\<open>getRetryDelay\<close>\<close>

text \<open>
  The source, lines 251 to 259. The sample that \<open>Math.random()\<close> returns is the
  argument \<open>u\<close>; the library promises \<open>0 \<le> u < 1\<close>.
\<close>

definition getRetryDelay :: "real \<Rightarrow> nat \<Rightarrow> real \<Rightarrow> real \<Rightarrow> real" where
  "getRetryDelay u attempt baseDelay maxDelay =
     (let exponentialDelay = baseDelay * 2 ^ attempt;
          jitter = exponentialDelay * u * 0.3;
          totalDelay = exponentialDelay + jitter
      in min totalDelay maxDelay)"

section \<open>The token tracker (\<open>lib/token-tracker\<close>)\<close>

subsection \<open>Pricing\<close>

record pricing =
  input_rate :: real
  output_rate :: real

text \<open>
  The \<open>PRICING\<close> object, per million tokens. An object literal is an association list
  in the order its keys are written, which is the order \<open>for ... in\<close> and
  \<open>Object.keys\<close> enumerate them in; the keys of the literal are looked up with
  \<^const>\<open>map_of\<close>.
\<close>

definition PRICING :: "(string \<times> (string \<times> pricing) list) list" where
  "PRICING =
     [(''openai'',
        [(''gpt-4o-mini'', \<lparr>input_rate = 0.15, output_rate = 0.60\<rparr>),
         (''gpt-4o'', \<lparr>input_rate = 2.50, output_rate = 10.00\<rparr>),
         (''gpt-4-turbo'', \<lparr>input_rate = 10.00, output_rate = 30.00\<rparr>),
         (''gpt-3.5-turbo'', \<lparr>input_rate = 0.50, output_rate = 1.50\<rparr>)]),
      (''anthropic'',
        [(''claude-3-haiku-20240307'', \<lparr>input_rate = 0.25, output_rate = 1.25\<rparr>),
         (''claude-3-5-sonnet-20241022'', \<lparr>input_rate = 3.00, output_rate = 15.00\<rparr>),
         (''claude-3-sonnet-20240229'', \<lparr>input_rate = 3.00, output_rate = 15.00\<rparr>),
         (''claude-3-opus-20240229'', \<lparr>input_rate = 15.00, output_rate = 75.00\<rparr>)]),
      (''gemini'',
        [(''gemini-1.5-flash'', \<lparr>input_rate = 0.075, output_rate = 0.30\<rparr>),
         (''gemini-1.5-pro'', \<lparr>input_rate = 1.25, output_rate = 5.00\<rparr>),
         (''gemini-pro'', \<lparr>input_rate = 0.50, output_rate = 1.50\<rparr>)])]"

definition DEFAULT_PRICING :: pricing where
  "DEFAULT_PRICING = \<lparr>input_rate = 0.50, output_rate = 1.50\<rparr>"

text \<open>
  A string argument that may be \<open>undefined\<close> or \<open>null\<close> is a \<^typ>\<open>string option\<close>; it is
  truthy when it is a non-empty string.
\<close>

definition truthy :: "string option \<Rightarrow> bool" where
  "truthy s = (case s of None \<Rightarrow> False | Some t \<Rightarrow> t \<noteq> [])"

text \<open>\<open>s.indexOf(t) !== -1\<close>.\<close>

definition indexOf_found :: "string \<Rightarrow> string \<Rightarrow> bool" where
  "indexOf_found s t = sublist t s"

text \<open>
  A property read \<open>obj[key]\<close> on an object written as a literal finds the keys of the
  literal and, through the prototype chain, the members of \<open>Object.prototype\<close>, which are
  functions or, for \<open>__proto__\<close>, \<open>Object.prototype\<close> itself: all truthy, none of them a
  rate. What such a read returns is a rate, or the built-in reached by a path of
  property names, or \<open>undefined\<close>.
\<close>

definition object_prototype_names :: "string list" where
  "object_prototype_names =
     [''constructor'', ''__defineGetter__'', ''__defineSetter__'', ''hasOwnProperty'',
      ''__lookupGetter__'', ''__lookupSetter__'', ''isPrototypeOf'', ''propertyIsEnumerable'',
      ''toString'', ''valueOf'', ''__proto__'', ''toLocaleString'']"

datatype js_value = Undefined | Rate pricing | Builtin "string list"

definition read_rates :: "(string \<times> pricing) list \<Rightarrow> string \<Rightarrow> js_value" where
  "read_rates providerPricing key =
     (case map_of providerPricing key of
        Some rate \<Rightarrow> Rate rate
      | None \<Rightarrow> if key \<in> set object_prototype_names then Builtin [key] else Undefined)"

text \<open>
  The source, lines 49 to 76. When \<open>provider\<close> itself names a member of
  \<open>Object.prototype\<close>, \<open>PRICING[provider]\<close> is that built-in: \<open>host p m\<close> tells whether its
  property \<open>m\<close> is truthy, and neither \<open>for ... in\<close> nor \<open>Object.keys\<close> enumerates anything
  on it, the properties of built-ins not being enumerable.
\<close>

definition getPricing ::
  "(string \<Rightarrow> string \<Rightarrow> bool) \<Rightarrow> string option \<Rightarrow> string option \<Rightarrow> js_value" where
  "getPricing host provider model =
     (if \<not> truthy provider then Rate DEFAULT_PRICING
      else
        case map_of PRICING (the provider) of
          Some providerPricing \<Rightarrow>
            if truthy model \<and> read_rates providerPricing (the model) \<noteq> Undefined
            then read_rates providerPricing (the model)
            else
              (case (if truthy model
                     then find (\<lambda>key. indexOf_found (the model) key \<or> indexOf_found key (the model))
                            (map fst providerPricing)
                     else None) of
                 Some key \<Rightarrow> read_rates providerPricing key
               | None \<Rightarrow>
                   let models = map fst providerPricing in
                   if length models > 0 then read_rates providerPricing (models ! 0)
                   else Rate DEFAULT_PRICING)
        | None \<Rightarrow>
            if the provider \<in> set object_prototype_names then
              if truthy model \<and> host (the provider) (the model)
              then Builtin [the provider, the model]
              else Rate DEFAULT_PRICING
            else Rate DEFAULT_PRICING)"

text \<open>
  The source, lines 86 to 91. Reading \<open>pricing.input\<close> of \<open>undefined\<close> would raise a
  \<open>TypeError\<close>; of a built-in it is \<open>undefined\<close>, and the product and the sum are \<open>NaN\<close>.
\<close>

datatype type_error = TypeError

datatype js_number = Num real | NaN

definition calculateCost ::
  "(string \<Rightarrow> string \<Rightarrow> bool) \<Rightarrow> string option \<Rightarrow> string option \<Rightarrow> real \<Rightarrow> real
     \<Rightarrow> type_error + js_number" where
  "calculateCost host provider model inputTokens outputTokens =
     (case getPricing host provider model of
        Undefined \<Rightarrow> Inl TypeError
      | Builtin path \<Rightarrow> Inr NaN
      | Rate pricing \<Rightarrow>
          let inputCost = (inputTokens / 1000000) * input_rate pricing;
              outputCost = (outputTokens / 1000000) * output_rate pricing
          in Inr (Num (inputCost + outputCost)))"

text \<open>A host in which the built-ins that \<open>getPricing\<close> may read have no truthy property.\<close>

definition no_builtin_property :: "string \<Rightarrow> string \<Rightarrow> bool" where
  "no_builtin_property name property = False"

text \<open>
  The resolution as the specification words it, over the provider's known models:
  exact match, then substring match against the known keys, then the first known
  model, then the default rate.
\<close>

definition known_models :: "string \<Rightarrow> (string \<times> pricing) list" where
  "known_models p = (case map_of PRICING p of None \<Rightarrow> [] | Some t \<Rightarrow> t)"

definition exact_match :: "string \<Rightarrow> string \<Rightarrow> pricing option" where
  "exact_match p m = map_of (known_models p) m"

definition substring_match :: "string \<Rightarrow> string \<Rightarrow> pricing option" where
  "substring_match p m =
     map_option snd (find (\<lambda>entry. sublist (fst entry) m \<or> sublist m (fst entry)) (known_models p))"

definition first_known :: "string \<Rightarrow> pricing option" where
  "first_known p = (case known_models p of [] \<Rightarrow> None | entry # _ \<Rightarrow> Some (snd entry))"

definition resolve_spec :: "string \<Rightarrow> string \<Rightarrow> pricing" where
  "resolve_spec p m =
     (case exact_match p m of
        Some r \<Rightarrow> r
      | None \<Rightarrow>
          (case substring_match p m of
             Some r \<Rightarrow> r
           | None \<Rightarrow>
               (case first_known p of
                  Some r \<Rightarrow> r
                | None \<Rightarrow> DEFAULT_PRICING)))"

text \<open>An absent argument reads as the empty string in the specification's terms.\<close>

definition str_of :: "string option \<Rightarrow> string" where
  "str_of s = (case s of None \<Rightarrow> [] | Some t \<Rightarrow> t)"

subsection \<open>Usage counters\<close>

text \<open>
  The usage object a provider reports: any of its fields may be missing. The counters
  that \<open>createEmptyUsage\<close> makes always hold numbers.
\<close>

record usage =
  u_inputTokens :: "int option"
  u_outputTokens :: "int option"
  u_totalTokens :: "int option"

record total_usage =
  inputTokens :: int
  outputTokens :: int
  totalTokens :: int
  estimatedCost :: js_number

definition createEmptyUsage :: total_usage where
  "createEmptyUsage =
     \<lparr>inputTokens = 0, outputTokens = 0, totalTokens = 0, estimatedCost = Num 0\<rparr>"

text \<open>\<open>x || 0\<close> on a number that may be missing.\<close>

definition or_zero :: "int option \<Rightarrow> int" where
  "or_zero x = (case x of None \<Rightarrow> 0 | Some v \<Rightarrow> v)"

text \<open>
  The source, lines 143 to 149; the mutated \<open>total\<close> is the result. In the last
  assignment \<open>||\<close> binds weaker than \<open>+\<close>: a missing or zero \<open>usage.totalTokens\<close> is
  replaced by the sum of the other two.
\<close>

definition addUsage :: "total_usage \<Rightarrow> usage option \<Rightarrow> total_usage" where
  "addUsage tot usage =
     (case usage of
        None \<Rightarrow> tot
      | Some u \<Rightarrow>
          tot
            \<lparr>inputTokens := inputTokens tot + or_zero (u_inputTokens u),
             outputTokens := outputTokens tot + or_zero (u_outputTokens u),
             totalTokens := totalTokens tot +
               (case u_totalTokens u of
                  None \<Rightarrow> or_zero (u_inputTokens u) + or_zero (u_outputTokens u)
                | Some t \<Rightarrow>
                    if t = 0 then or_zero (u_inputTokens u) + or_zero (u_outputTokens u)
                    else t)\<rparr>)"

text \<open>The invariant of the counters.\<close>

definition usage_consistent :: "total_usage \<Rightarrow> bool" where
  "usage_consistent tot = (totalTokens tot = inputTokens tot + outputTokens tot)"

section \<open>The retry loop (\<open>lib/retry\<close>, continued)\<close>

subsection \<open>\<open>parseRetryAfter\<close>\<close>

text \<open>
  \<open>parseInt(s, 10)\<close>: leading white space is skipped, then an optional sign and the
  longest run of decimal digits are read; with no digit the result is \<open>NaN\<close>, here
  \<open>None\<close>.
\<close>

definition isWhiteSpace :: "char \<Rightarrow> bool" where
  "isWhiteSpace c = ((of_char c :: nat) \<in> {9, 10, 11, 12, 13, 32})"

definition isDigit :: "char \<Rightarrow> bool" where
  "isDigit c = (48 \<le> (of_char c :: nat) \<and> (of_char c :: nat) \<le> 57)"

definition digits_value :: "string \<Rightarrow> int" where
  "digits_value ds = foldl (\<lambda>acc c. acc * 10 + (int (of_char c) - 48)) 0 ds"

definition parseInt :: "string \<Rightarrow> int option" where
  "parseInt s =
     (let t = dropWhile isWhiteSpace s;
          negative = (t \<noteq> [] \<and> hd t = CHR ''-'');
          r = (if t \<noteq> [] \<and> (hd t = CHR ''-'' \<or> hd t = CHR ''+'') then tl t else t);
          ds = takeWhile isDigit r
      in if ds = [] then None
         else Some (if negative then - digits_value ds else digits_value ds))"

text \<open>
  The source, lines 266 to 283, in milliseconds. \<open>date_parse\<close> stands for
  \<open>new Date(s).getTime()\<close> (\<open>None\<close> for an invalid date) and \<open>now\<close> for \<open>Date.now()\<close>.
\<close>

definition parseRetryAfter :: "(string \<Rightarrow> int option) \<Rightarrow> int \<Rightarrow> response \<Rightarrow> int option" where
  "parseRetryAfter date_parse now resp =
     (case retry_after resp of
        None \<Rightarrow> None
      | Some retryAfter \<Rightarrow>
          if retryAfter = [] then None
          else
            (case parseInt retryAfter of
               Some seconds \<Rightarrow> Some (seconds * 1000)
             | None \<Rightarrow>
                 (case date_parse retryAfter of
                    Some date \<Rightarrow> Some (max 0 (date - now))
                  | None \<Rightarrow> None)))"

subsection \<open>\<open>withRetry\<close>\<close>

text \<open>
  What the loop reads from outside: the outcome of the call of \<open>fn\<close> made at each
  attempt (\<open>Inl\<close> the error it throws), the sample \<open>Math.random()\<close> returns and the
  clock \<open>Date.now()\<close> shows when the delay after that attempt is computed, and the
  date parser.
\<close>

record 'a retry_env =
  fn :: "nat \<Rightarrow> js_error + 'a"
  random :: "nat \<Rightarrow> real"
  date_now :: "nat \<Rightarrow> int"
  date_parse :: "string \<Rightarrow> int option"

text \<open>
  The \<open>options\<close> argument; \<open>None\<close> is a missing field. \<open>maxRetries\<close> is a number of
  attempts, a natural number. The callback \<open>onRetry\<close> returns \<open>Some e\<close> when it throws
  \<open>e\<close>.
\<close>

record retry_options =
  maxRetries :: "nat option"
  baseDelay :: "real option"
  maxDelay :: "real option"
  onRetry :: "(nat \<Rightarrow> js_error \<Rightarrow> real \<Rightarrow> js_error option) option"

text \<open>What the loop does that can be seen from outside: calls of \<open>fn\<close> and sleeps.\<close>

datatype event = Call nat | Sleep real

text \<open>
  The block under \<open>// Calculate delay\<close>, lines 321 to 328. In
  \<open>parseRetryAfter(lastResponse) || getRetryDelay(...)\<close> the left operand is falsy when
  it is \<open>null\<close> and when it is \<open>0\<close>.
\<close>

definition retry_delay ::
  "'a retry_env \<Rightarrow> real \<Rightarrow> real \<Rightarrow> nat \<Rightarrow> ErrorTypes \<Rightarrow> response option \<Rightarrow> real" where
  "retry_delay env base_delay max_delay attempt errorType lastResponse =
     (case lastResponse of
        Some resp \<Rightarrow>
          if errorType = RATE_LIMIT then
            (case parseRetryAfter (date_parse env) (date_now env attempt) resp of
               None \<Rightarrow> getRetryDelay (random env attempt) attempt (base_delay * 2) max_delay
             | Some d \<Rightarrow>
                 if d = 0
                 then getRetryDelay (random env attempt) attempt (base_delay * 2) max_delay
                 else real_of_int d)
          else getRetryDelay (random env attempt) attempt base_delay max_delay
      | None \<Rightarrow> getRetryDelay (random env attempt) attempt base_delay max_delay)"

text \<open>
  The \<open>for\<close> loop, lines 305 to 337. A thrown value is a \<^typ>\<open>js_error option\<close>: the
  statement \<open>throw lastError\<close> after the loop throws \<open>undefined\<close>, here \<open>None\<close>, when
  nothing was caught before.
\<close>

function withRetry_loop ::
  "'a retry_env \<Rightarrow> nat \<Rightarrow> real \<Rightarrow> real \<Rightarrow> (nat \<Rightarrow> js_error \<Rightarrow> real \<Rightarrow> js_error option)
     \<Rightarrow> nat \<Rightarrow> js_error option \<Rightarrow> event list \<Rightarrow> event list \<times> (js_error option + 'a)" where
  "withRetry_loop env max_retries base_delay max_delay on_retry attempt lastError trace =
     (if attempt \<le> max_retries then
        (case fn env attempt of
           Inr result \<Rightarrow> (trace @ [Call attempt], Inr result)
         | Inl error \<Rightarrow>
             let lastResponse = response error;
                 errorType = classifyError error lastResponse
             in if attempt = max_retries \<or> \<not> isRetryable errorType
                then (trace @ [Call attempt], Inl (Some error))
                else
                  let delay = retry_delay env base_delay max_delay attempt errorType lastResponse
                  in (case on_retry attempt error delay of
                        Some thrown \<Rightarrow> (trace @ [Call attempt], Inl (Some thrown))
                      | None \<Rightarrow>
                          withRetry_loop env max_retries base_delay max_delay on_retry
                            (attempt + 1) (Some error) (trace @ [Call attempt, Sleep delay])))
      else (trace, Inl lastError))"
  by pat_completeness auto
termination
  by (relation "measure (\<lambda>(env, max_retries, base_delay, max_delay, on_retry, attempt, lastError,
        trace). Suc max_retries - attempt)") auto

text \<open>The defaults, lines 296 to 300: \<open>x || d\<close> takes \<open>d\<close> for a missing and for a zero \<open>x\<close>.\<close>

definition or_default :: "real option \<Rightarrow> real \<Rightarrow> real" where
  "or_default x d = (case x of None \<Rightarrow> d | Some v \<Rightarrow> if v = 0 then d else v)"

definition max_retries_of :: "retry_options \<Rightarrow> nat" where
  "max_retries_of options = (case maxRetries options of None \<Rightarrow> 3 | Some n \<Rightarrow> n)"

definition on_retry_of :: "retry_options \<Rightarrow> nat \<Rightarrow> js_error \<Rightarrow> real \<Rightarrow> js_error option" where
  "on_retry_of options = (case onRetry options of None \<Rightarrow> (\<lambda>attempt error delay. None) | Some f \<Rightarrow> f)"

definition withRetry ::
  "'a retry_env \<Rightarrow> retry_options \<Rightarrow> event list \<times> (js_error option + 'a)" where
  "withRetry env options =
     withRetry_loop env (max_retries_of options) (or_default (baseDelay options) 1000)
       (or_default (maxDelay options) 30000) (on_retry_of options) 0 None []"

text \<open>The number of times \<open>fn\<close> was called, and the sleeps, in a trace.\<close>

definition calls :: "event list \<Rightarrow> nat" where
  "calls trace = length (filter (\<lambda>ev. case ev of Call k \<Rightarrow> True | Sleep d \<Rightarrow> False) trace)"

definition sleeps :: "event list \<Rightarrow> real list" where
  "sleeps trace = concat (map (\<lambda>ev. case ev of Call k \<Rightarrow> [] | Sleep d \<Rightarrow> [d]) trace)"

section \<open>The analyzer (\<open>lib/analyzer\<close>)\<close>

subsection \<open>Data\<close>

text \<open>
  A sheet object as the batch reads it, the result of \<open>analyzeObject\<close>, and the entry
  stored in \<open>objectSummaries\<close>. The \<open>timestamp\<close> field, a reading of the wall clock, is
  left out. A successful entry has no \<open>error\<close> property, which reads as false. In what
  follows field names carry a prefix where the name is taken in Isabelle.
\<close>

record obj =
  obj_id :: string
  obj_title :: string
  obj_type :: string
  obj_showHoverMenu :: bool

record object_result =
  r_text :: string
  r_usage :: "usage option"

record summary_data =
  d_id :: string
  d_title :: string
  d_type :: string
  d_summary :: string
  d_showHoverMenu :: bool
  d_error :: bool
  d_usage :: "usage option"

text \<open>
  The per-item worker \<open>self.analyzeObject(obj, selections, config, provider)\<close>: a remote
  call, whose outcome is given for each call by the index of the item it is made for
  (\<open>Inl\<close> the error it throws).
\<close>

type_synonym worker = "nat \<Rightarrow> obj \<Rightarrow> js_error + object_result"

subsection \<open>\<open>analyzeWithErrorHandling\<close>\<close>

text \<open>The source, lines 149 to 185.\<close>

definition analyzeWithErrorHandling :: "worker \<Rightarrow> obj \<Rightarrow> nat \<Rightarrow> nat \<times> summary_data" where
  "analyzeWithErrorHandling analyzeObject ob index =
     (case analyzeObject index ob of
        Inr result \<Rightarrow>
          (index,
           \<lparr>d_id = obj_id ob, d_title = obj_title ob, d_type = obj_type ob,
            d_summary = r_text result, d_showHoverMenu = obj_showHoverMenu ob,
            d_error = False, d_usage = r_usage result\<rparr>)
      | Inl err \<Rightarrow>
          (index,
           \<lparr>d_id = obj_id ob, d_title = obj_title ob, d_type = obj_type ob,
            d_summary = ''Analysis failed: '' @ message err,
            d_showHoverMenu = obj_showHoverMenu ob,
            d_error = True, d_usage = None\<rparr>))"

subsection \<open>Arrays and promises\<close>

text \<open>\<open>xs.slice(a, b)\<close> for \<open>a \<le> b\<close>.\<close>

definition slice :: "'a list \<Rightarrow> nat \<Rightarrow> nat \<Rightarrow> 'a list" where
  "slice xs a b = take (b - a) (drop a xs)"

text \<open>
  A JavaScript array that may have holes is a list of options. The assignment
  \<open>xs[i] = v\<close> overwrites inside the array and extends it, with holes, beyond its end;
  \<open>xs.filter(function(s) { return s; })\<close> drops the holes, the entries themselves being
  objects and so truthy.
\<close>

definition array_store :: "'a option list \<Rightarrow> nat \<Rightarrow> 'a \<Rightarrow> 'a option list" where
  "array_store xs i v =
     (if i < length xs then xs[i := Some v]
      else xs @ replicate (i - length xs) None @ [Some v])"

definition filter_truthy :: "'a option list \<Rightarrow> 'a list" where
  "filter_truthy xs = concat (map (\<lambda>x. case x of None \<Rightarrow> [] | Some v \<Rightarrow> [v]) xs)"

text \<open>
  \<open>Promise.all\<close> over promises that all fulfil: each value is stored at the position of
  its promise when that promise settles, and the array is delivered once every
  position is filled. \<open>order\<close> lists the positions in the order in which the promises
  settle; \<open>None\<close> is a promise that never resolves.
\<close>

definition promise_all :: "nat list \<Rightarrow> 'a list \<Rightarrow> 'a list option" where
  "promise_all order ps =
     (let slots = fold (\<lambda>pos acc. if pos < length ps then acc[pos := Some (ps ! pos)] else acc)
                    order (replicate (length ps) None)
      in if list_all (\<lambda>s. s \<noteq> None) slots then Some (map the slots) else None)"

text \<open>A completion order of \<open>n\<close> concurrent calls: each position once.\<close>

definition completion_order :: "nat \<Rightarrow> nat list \<Rightarrow> bool" where
  "completion_order n order = (sort order = [0..<n])"

subsection \<open>The window loop of \<open>analyzeSheet\<close>\<close>

text \<open>The local variables the loop updates.\<close>

record batch_vars =
  objectSummaries :: "summary_data option list"
  totalUsage :: total_usage
  completedCount :: nat

text \<open>The body of \<open>batchResults.forEach\<close>, lines 215 to 225.\<close>

definition store_result :: "nat \<times> summary_data \<Rightarrow> batch_vars \<Rightarrow> batch_vars" where
  "store_result result vars =
     vars
       \<lparr>totalUsage :=
          (case d_usage (snd result) of
             Some u \<Rightarrow> addUsage (totalUsage vars) (Some u)
           | None \<Rightarrow> totalUsage vars),
        objectSummaries :=
          array_store (objectSummaries vars) (fst result) ((snd result)\<lparr>d_usage := None\<rparr>),
        completedCount := completedCount vars + 1\<rparr>"

definition cancelled_error :: js_error where
  "cancelled_error = \<lparr>message = ''Analysis cancelled'', response = None\<rparr>"

text \<open>
  The \<open>for\<close> loop, lines 190 to 229, with the batch size as a parameter. \<open>cancelled\<close>
  is what \<open>cancelToken.cancelled\<close> reads at the check before the window that starts at
  \<open>batchStart\<close>, the token being set from outside; \<open>completion\<close> is the order in which
  the calls of that window complete. The first component of the result lists the
  items the worker was invoked for, which stay invoked when the loop throws. The loop
  does not end for a batch size of zero: its result is an option.
\<close>

partial_function (option) batch_loop ::
  "nat \<Rightarrow> (nat \<Rightarrow> bool) \<Rightarrow> (nat \<Rightarrow> nat list) \<Rightarrow> worker \<Rightarrow> obj list
     \<Rightarrow> nat \<Rightarrow> nat list \<Rightarrow> batch_vars \<Rightarrow> (nat list \<times> (js_error + batch_vars)) option" where
  "batch_loop batch_size cancelled completion analyzeObject filteredObjects batchStart
       invoked vars =
     (if batchStart < length filteredObjects then
        if cancelled batchStart then Some (invoked, Inl cancelled_error)
        else
          let batchEnd = min (batchStart + batch_size) (length filteredObjects);
              batch = slice filteredObjects batchStart batchEnd;
              batchPromises =
                map (\<lambda>(batchIndex, ob).
                       analyzeWithErrorHandling analyzeObject ob (batchStart + batchIndex))
                  (enumerate 0 batch);
              launched = map (\<lambda>(batchIndex, ob). batchStart + batchIndex) (enumerate 0 batch)
          in case promise_all (completion batchStart) batchPromises of
               None \<Rightarrow> None
             | Some batchResults \<Rightarrow>
                 batch_loop batch_size cancelled completion analyzeObject filteredObjects
                   (batchStart + batch_size) (invoked @ launched)
                   (fold store_result batchResults vars)
      else Some (invoked, Inr vars))"

declare batch_loop.simps [code]

text \<open>
  The loop from its initial state, followed by the filter of line 232: the batch
  scheduler.
\<close>

definition run_batches ::
  "nat \<Rightarrow> (nat \<Rightarrow> bool) \<Rightarrow> (nat \<Rightarrow> nat list) \<Rightarrow> worker \<Rightarrow> obj list
     \<Rightarrow> (nat list \<times> (js_error + summary_data list \<times> total_usage)) option" where
  "run_batches batch_size cancelled completion analyzeObject filteredObjects =
     (case batch_loop batch_size cancelled completion analyzeObject filteredObjects 0 []
             \<lparr>objectSummaries = [], totalUsage = createEmptyUsage, completedCount = 0\<rparr> of
        None \<Rightarrow> None
      | Some (invoked, Inl err) \<Rightarrow> Some (invoked, Inl err)
      | Some (invoked, Inr vars) \<Rightarrow>
          Some (invoked, Inr (filter_truthy (objectSummaries vars), totalUsage vars)))"

text \<open>
  The entry the batch produces for the item at \<open>index\<close>, the \<open>usage\<close> property deleted,
  and the schedules under which every window completes.
\<close>

definition outcome :: "worker \<Rightarrow> obj list \<Rightarrow> nat \<Rightarrow> summary_data" where
  "outcome analyzeObject filteredObjects index =
     (snd (analyzeWithErrorHandling analyzeObject (filteredObjects ! index) index))
       \<lparr>d_usage := None\<rparr>"

definition valid_schedule :: "nat \<Rightarrow> nat \<Rightarrow> (nat \<Rightarrow> nat list) \<Rightarrow> bool" where
  "valid_schedule batch_size n completion =
     (\<forall>batchStart < n. batchStart mod batch_size = 0 \<longrightarrow>
        completion_order (min (batchStart + batch_size) n - batchStart) (completion batchStart))"

text \<open>
  The variables after the items from \<open>s\<close> up to \<open>e\<close> have been stored in the order of
  their indices, the initial variables, and the usage the whole batch adds up.
\<close>

definition after_items :: "worker \<Rightarrow> obj list \<Rightarrow> nat \<Rightarrow> nat \<Rightarrow> batch_vars \<Rightarrow> batch_vars" where
  "after_items w objs s e vars =
     fold store_result (map (\<lambda>i. analyzeWithErrorHandling w (objs ! i) i) [s..<e]) vars"

definition initial_vars :: batch_vars where
  "initial_vars = \<lparr>objectSummaries = [], totalUsage = createEmptyUsage, completedCount = 0\<rparr>"

definition batch_usage :: "worker \<Rightarrow> obj list \<Rightarrow> total_usage" where
  "batch_usage w objs = totalUsage (after_items w objs 0 (length objs) initial_vars)"

subsection \<open>\<open>analyzeSheet\<close>\<close>

text \<open>
  The collaborators of \<open>analyzeSheet\<close>, each given by what it returns or throws:
  \<open>engineService.getSheetObjects\<close>, \<open>objectFilter.filterObjects\<close>,
  \<open>engineService.getCurrentSelections\<close> (\<open>Some\<close> the error it throws), the two calls of
  the provider, the cancellation token as read at each of the checks, the completion
  orders of the windows, and the truthiness of the properties of the built-ins that
  \<open>getPricing\<close> may read.
\<close>

datatype poll = AfterFetch | AfterSelections | BeforeBatch nat | BeforeSheetSummary

record sheet_env =
  getSheetObjects :: "js_error + obj list"
  filterObjects :: "obj list \<Rightarrow> obj list"
  getCurrentSelections :: "js_error option"
  analyzeObject :: worker
  generateSheetSummary :: "summary_data list \<Rightarrow> js_error + object_result"
  cancelToken :: "poll \<Rightarrow> bool"
  completion :: "nat \<Rightarrow> nat list"
  builtin_property :: "string \<Rightarrow> string \<Rightarrow> bool"

record config =
  cfg_provider :: string
  cfg_model :: "string option"

text \<open>The object \<open>analyzeSheet\<close> returns; the early return has neither objects nor usage.\<close>

record sheet_result =
  sheetSummary :: string
  res_objectSummaries :: "summary_data list"
  analyzedObjects :: "obj list option"
  res_usage :: "total_usage option"

definition BATCH_SIZE :: nat where
  "BATCH_SIZE = 3"

definition providers :: "string list" where
  "providers = [''openai'', ''anthropic'', ''gemini'']"

text \<open>
  \<open>providers[config.provider]\<close> is truthy for the keys of the registry and, through the
  prototype chain, for the names of the members of \<open>Object.prototype\<close>.
\<close>

definition provider_found :: "string \<Rightarrow> bool" where
  "provider_found name = (name \<in> set providers \<or> name \<in> set object_prototype_names)"

text \<open>The source, lines 87 to 276; logging and progress messages are left out.\<close>

definition analyzeSheet ::
  "sheet_env \<Rightarrow> config \<Rightarrow> (nat list \<times> (js_error + sheet_result)) option" where
  "analyzeSheet env cfg =
     (case getSheetObjects env of
        Inl err \<Rightarrow> Some ([], Inl err)
      | Inr allObjects \<Rightarrow>
          if cancelToken env AfterFetch then Some ([], Inl cancelled_error)
          else
            let filteredObjects = filterObjects env allObjects in
            if length filteredObjects = 0 then
              Some ([], Inr \<lparr>sheetSummary = ''No analyzable objects found on this sheet.'',
                             res_objectSummaries = [], analyzedObjects = None,
                             res_usage = None\<rparr>)
            else
              (case getCurrentSelections env of
                 Some err \<Rightarrow> Some ([], Inl err)
               | None \<Rightarrow>
                   if cancelToken env AfterSelections then Some ([], Inl cancelled_error)
                   else if \<not> provider_found (cfg_provider cfg) then
                     Some ([], Inl \<lparr>message = ''Unknown AI provider: '' @ cfg_provider cfg,
                                    response = None\<rparr>)
                   else
                     (case run_batches BATCH_SIZE (\<lambda>batchStart. cancelToken env (BeforeBatch batchStart))
                             (completion env) (analyzeObject env) filteredObjects of
                        None \<Rightarrow> None
                      | Some (invoked, Inl err) \<Rightarrow> Some (invoked, Inl err)
                      | Some (invoked, Inr (summaries, usage_total)) \<Rightarrow>
                          if cancelToken env BeforeSheetSummary
                          then Some (invoked, Inl cancelled_error)
                          else
                            (case generateSheetSummary env summaries of
                               Inl err \<Rightarrow> Some (invoked, Inl err)
                             | Inr sheetResult \<Rightarrow>
                                 let usage_total' =
                                       (case r_usage sheetResult of
                                          Some u \<Rightarrow> addUsage usage_total (Some u)
                                        | None \<Rightarrow> usage_total)
                                 in (case calculateCost (builtin_property env)
                                            (Some (cfg_provider cfg)) (cfg_model cfg)
                                            (real_of_int (inputTokens usage_total'))
                                            (real_of_int (outputTokens usage_total')) of
                                       Inl TypeError \<Rightarrow>
                                         Some (invoked,
                                               Inl \<lparr>message = ''TypeError'', response = None\<rparr>)
                                     | Inr cost \<Rightarrow>
                                         Some (invoked,
                                               Inr \<lparr>sheetSummary = r_text sheetResult,
                                                    res_objectSummaries = summaries,
                                                    analyzedObjects = Some filteredObjects,
                                                    res_usage = Some (usage_total'
                                                      \<lparr>estimatedCost := cost\<rparr>)\<rparr>))))))"

subsection \<open>A sample sheet\<close>

text \<open>
  Five objects, a worker that fails for the object at index 2, a worker that never
  fails, and the completion order in which the call started last completes first.
\<close>

definition sample_objects :: "obj list" where
  "sample_objects =
     map (\<lambda>name. \<lparr>obj_id = name, obj_title = name, obj_type = ''kpi'', obj_showHoverMenu = False\<rparr>)
       [''a'', ''b'', ''c'', ''d'', ''e'']"

definition sample_result :: object_result where
  "sample_result =
     \<lparr>r_text = ''ok'',
      r_usage = Some \<lparr>u_inputTokens = Some 10, u_outputTokens = Some 5, u_totalTokens = None\<rparr>\<rparr>"

definition sample_failure :: js_error where
  "sample_failure =
     \<lparr>message = ''bad request'', response = Some \<lparr>status = 400, retry_after = None\<rparr>\<rparr>"

definition sample_worker :: worker where
  "sample_worker index ob = (if index = 2 then Inl sample_failure else Inr sample_result)"

definition steady_worker :: worker where
  "steady_worker index ob = Inr sample_result"

definition reversed_completion :: "nat \<Rightarrow> nat \<Rightarrow> nat \<Rightarrow> nat list" where
  "reversed_completion batch_size n batchStart = rev [0..<min (batchStart + batch_size) n - batchStart]"

definition sample_env :: "(poll \<Rightarrow> bool) \<Rightarrow> sheet_env" where
  "sample_env token =
     \<lparr>getSheetObjects = Inr sample_objects,
      filterObjects = (\<lambda>objects. objects),
      getCurrentSelections = None,
      analyzeObject = sample_worker,
      generateSheetSummary = (\<lambda>summaries. Inr sample_result),
      cancelToken = token,
      completion = reversed_completion BATCH_SIZE 5,
      builtin_property = no_builtin_property\<rparr>"

definition sample_config :: config where
  "sample_config = \<lparr>cfg_provider = ''openai'', cfg_model = Some ''gpt-4o''\<rparr>"





section \<open>Properties of the retry module\<close>

lemma status_class_cases:
  "status_class s =
     (if s = 401 \<or> s = 403 then Some AUTH_ERROR
      else if s = 429 then Some RATE_LIMIT
      else if s = 400 then Some VALIDATION_ERROR
      else if 500 \<le> s \<and> s < 600 then Some SERVER_ERROR
      else None)"
  by (auto simp: status_class_def)

lemma message_class_cases:
  "message_class m =
     (let msg = toLowerCase m in
      if str_includes msg ''timeout'' \<or> str_includes msg ''timed out'' then TIMEOUT_ERROR
      else if str_includes msg ''network'' \<or> str_includes msg ''fetch''
              \<or> str_includes msg ''connection''
        then NETWORK_ERROR
      else if str_includes msg ''api key'' \<or> str_includes msg ''unauthorized''
              \<or> str_includes msg ''authentication''
        then AUTH_ERROR
      else if str_includes msg ''rate'' \<or> str_includes msg ''limit''
              \<or> str_includes msg ''quota''
        then RATE_LIMIT
      else UNKNOWN_ERROR)"
  by (simp add: message_class_def message_rules_def str_includes_def Let_def)

text \<open>
  Claim C5. \<open>classifyError\<close> is the classification of the specification: a response
  status of 401 or 403 gives Auth, 429 RateLimit, 400 Validation, 500 to 599 Server,
  whatever the message says; with no response, or a status outside these, the
  lower-cased message is searched, in this order, for timeout / timed out (Timeout),
  network / fetch / connection (Network), api key / unauthorized / authentication
  (Auth), rate / limit / quota (RateLimit); everything else is Unknown.
\<close>

theorem classifyError_refines_spec:
  "classifyError error resp = classify_spec error resp"
proof (cases resp)
  case None
  then show ?thesis
    by (simp add: classifyError_def classify_spec_def message_class_cases Let_def)
next
  case (Some r)
  then show ?thesis
    by (simp add: classifyError_def classify_spec_def status_class_cases
        message_class_cases Let_def)
qed

theorem classifyError_refines_spec_witness:
  "classifyError \<lparr>message = ''Request Timed Out after 30 seconds'', response = None\<rparr> None
     = TIMEOUT_ERROR
   \<and> classifyError \<lparr>message = ''timeout'', response = None\<rparr>
       (Some \<lparr>status = 503, retry_after = None\<rparr>) = SERVER_ERROR"
proof -
  have "classify_spec \<lparr>message = ''Request Timed Out after 30 seconds'', response = None\<rparr> None
          = TIMEOUT_ERROR"
    by code_simp
  moreover have "classify_spec \<lparr>message = ''timeout'', response = None\<rparr>
          (Some \<lparr>status = 503, retry_after = None\<rparr>) = SERVER_ERROR"
    by code_simp
  ultimately show ?thesis
    by (simp add: classifyError_refines_spec)
qed

text \<open>
  Claim C6. \<open>isRetryable\<close> holds of RateLimit, Network, Server and Timeout and of
  nothing else: Auth, Validation and Unknown are terminal.
\<close>

theorem isRetryable_iff:
  "isRetryable c = (c = RATE_LIMIT \<or> c = NETWORK_ERROR \<or> c = SERVER_ERROR \<or> c = TIMEOUT_ERROR)
   \<and> \<not> isRetryable AUTH_ERROR \<and> \<not> isRetryable VALIDATION_ERROR
   \<and> \<not> isRetryable UNKNOWN_ERROR \<and> isRetryable RATE_LIMIT"
  by (auto simp: isRetryable_def retryableTypes_def)

text \<open>
  Claim C8. For an attempt number \<open>a\<close>, a base delay \<open>b > 0\<close>, a cap \<open>m \<ge> 0\<close> and a
  jitter sample \<open>u\<close> in \<open>[0, 1)\<close>, the delay is
  \<open>min (b * 2^a + b * 2^a * 0.3 * u) m\<close>. It never exceeds \<open>m\<close>. For each sample it is
  non-decreasing in the attempt number, so its mean over the samples is too, whatever
  their distribution: any way \<open>E\<close> of averaging the functions bounded on \<open>[0, 1)\<close> that
  respects their pointwise order there gives a non-decreasing value. The lower Darboux
  integral over \<open>[0, 1)\<close> is such an \<open>E\<close>, and on the delay, which is continuous in the
  sample, it is the expectation under the uniform distribution.
\<close>

theorem getRetryDelay_formula_bound_monotone:
  assumes "0 < b" and "0 \<le> m" and "0 \<le> u" and "u < 1"
    and "\<forall>f g. (\<exists>B. \<forall>v::real. 0 \<le> v \<and> v < 1 \<longrightarrow> \<bar>f v\<bar> \<le> B \<and> \<bar>g v\<bar> \<le> B)
               \<and> (\<forall>v::real. 0 \<le> v \<and> v < 1 \<longrightarrow> f v \<le> g v) \<longrightarrow> E f \<le> (E g :: real)"
    and "a \<le> a'"
  shows "getRetryDelay u a b m = min (b * 2 ^ a + b * 2 ^ a * 0.3 * u) m
       \<and> getRetryDelay u a b m \<le> m
       \<and> getRetryDelay u a b m \<le> getRetryDelay u a' b m
       \<and> E (\<lambda>v. getRetryDelay v a b m) \<le> E (\<lambda>v. getRetryDelay v a' b m)"
proof -
  have pow: "(2::real) ^ a \<le> 2 ^ a'"
    using \<open>a \<le> a'\<close> by (simp add: power_increasing)
  have pointwise: "getRetryDelay v a b m \<le> getRetryDelay v a' b m" if "0 \<le> v" for v
  proof -
    have "b * 2 ^ a * (1 + v * 0.3) \<le> b * 2 ^ a' * (1 + v * 0.3)"
      using pow \<open>0 < b\<close> that by (intro mult_right_mono mult_left_mono) auto
    then have "b * 2 ^ a + b * 2 ^ a * v * 0.3 \<le> b * 2 ^ a' + b * 2 ^ a' * v * 0.3"
      by (simp add: algebra_simps)
    then show ?thesis
      by (simp add: getRetryDelay_def Let_def min_le_iff_disj)
  qed
  have range: "\<bar>getRetryDelay v k b m\<bar> \<le> m" if "0 \<le> v" for v k
  proof -
    have "0 \<le> b * 2 ^ k * (1 + v * 0.3)"
      using \<open>0 < b\<close> that by (intro mult_nonneg_nonneg) auto
    then have "0 \<le> b * 2 ^ k + b * 2 ^ k * v * 0.3"
      by (simp add: algebra_simps)
    then have "0 \<le> getRetryDelay v k b m"
      using \<open>0 \<le> m\<close> by (simp add: getRetryDelay_def Let_def)
    moreover have "getRetryDelay v k b m \<le> m"
      by (simp add: getRetryDelay_def Let_def)
    ultimately show ?thesis by simp
  qed
  have formula: "getRetryDelay u a b m = min (b * 2 ^ a + b * 2 ^ a * 0.3 * u) m"
    by (simp add: getRetryDelay_def Let_def algebra_simps)
  have bound: "getRetryDelay u a b m \<le> m"
    by (simp add: getRetryDelay_def Let_def)
  have bounded: "\<exists>B. \<forall>v::real. 0 \<le> v \<and> v < 1 \<longrightarrow>
                   \<bar>getRetryDelay v a b m\<bar> \<le> B \<and> \<bar>getRetryDelay v a' b m\<bar> \<le> B"
    by (rule exI [of _ m]) (simp add: range)
  have ordered: "\<forall>v::real. 0 \<le> v \<and> v < 1 \<longrightarrow> getRetryDelay v a b m \<le> getRetryDelay v a' b m"
    by (simp add: pointwise)
  have mean: "E (\<lambda>v. getRetryDelay v a b m) \<le> E (\<lambda>v. getRetryDelay v a' b m)"
    using bounded ordered by (intro assms(5) [rule_format] conjI)
  from formula bound pointwise [OF \<open>0 \<le> u\<close>] mean show ?thesis by blast
qed

text \<open>The witness averages over the two samples \<open>0\<close> and \<open>1/2\<close>.\<close>

theorem getRetryDelay_formula_bound_monotone_witness:
  "getRetryDelay (1/2) 1 1000 30000 = 2300
   \<and> getRetryDelay (1/2) 1 1000 30000 \<le> 30000
   \<and> getRetryDelay (1/2) 1 1000 30000 \<le> getRetryDelay (1/2) 2 1000 30000
   \<and> (getRetryDelay 0 1 1000 30000 + getRetryDelay (1/2) 1 1000 30000) / 2
       \<le> (getRetryDelay 0 2 1000 30000 + getRetryDelay (1/2) 2 1000 30000) / 2"
proof -
  have E: "\<forall>f g. (\<exists>B. \<forall>v::real. 0 \<le> v \<and> v < 1 \<longrightarrow> \<bar>f v\<bar> \<le> B \<and> \<bar>g v\<bar> \<le> B)
               \<and> (\<forall>v::real. 0 \<le> v \<and> v < 1 \<longrightarrow> f v \<le> g v)
             \<longrightarrow> (f 0 + f (1/2)) / 2 \<le> ((g 0 + g (1/2)) / 2 :: real)"
  proof (intro allI impI)
    fix f g :: "real \<Rightarrow> real"
    assume "(\<exists>B. \<forall>v::real. 0 \<le> v \<and> v < 1 \<longrightarrow> \<bar>f v\<bar> \<le> B \<and> \<bar>g v\<bar> \<le> B)
               \<and> (\<forall>v::real. 0 \<le> v \<and> v < 1 \<longrightarrow> f v \<le> g v)"
    then have le: "\<forall>v::real. 0 \<le> v \<and> v < 1 \<longrightarrow> f v \<le> g v" ..
    have "f 0 \<le> g 0"
      using le [rule_format, of 0] by simp
    moreover have "f (1/2) \<le> g (1/2)"
      using le [rule_format, of "1/2"] by simp
    ultimately show "(f 0 + f (1/2)) / 2 \<le> (g 0 + g (1/2)) / 2" by simp
  qed
  have "(0::real) < 1000" and "(0::real) \<le> 30000" and "(0::real) \<le> 1/2" and "(1/2::real) < 1"
    and "(1::nat) \<le> 2"
    by simp_all
  from getRetryDelay_formula_bound_monotone
    [of 1000 30000 "1/2" "\<lambda>f. (f 0 + f (1/2)) / 2" 1 2, OF this(1-4) E this(5)]
  show ?thesis by (simp add: getRetryDelay_def)
qed

section \<open>Properties of the token tracker\<close>

lemma find_fst_map_of:
  "find (\<lambda>e. P (fst e)) t = Some e \<Longrightarrow> map_of t (fst e) = Some (snd e)"
  by (induction t) (auto split: if_splits simp: find_Some_iff)

lemma first_key_lookup: "t \<noteq> [] \<Longrightarrow> map_of t (fst (t ! 0)) = Some (snd (hd t))"
  by (cases t) auto

lemma first_known_hd:
  "first_known p = (if known_models p = [] then None else Some (snd (hd (known_models p))))"
  by (simp add: first_known_def split: list.splits)

lemma find_map_fst:
  "find P (map fst t) = map_option fst (find (\<lambda>e. P (fst e)) t)"
  by (induction t) auto

lemma PRICING_no_empty_provider: "map_of PRICING [] = None"
  by (simp add: PRICING_def)

lemma PRICING_no_empty_model: "map_of PRICING p = Some t \<Longrightarrow> map_of t [] = None"
  by (auto simp: PRICING_def split: if_splits)

lemma empty_not_prototype_name: "[] \<notin> set object_prototype_names"
  by (simp add: object_prototype_names_def)

lemma read_rates_own: "map_of t key = Some r \<Longrightarrow> read_rates t key = Rate r"
  by (simp add: read_rates_def)

lemma read_rates_absent:
  "map_of t key = None \<Longrightarrow> key \<notin> set object_prototype_names \<Longrightarrow> read_rates t key = Undefined"
  by (simp add: read_rates_def)

lemma read_rates_first: "t \<noteq> [] \<Longrightarrow> read_rates t (fst (t ! 0)) = Rate (snd (hd t))"
  by (simp add: read_rates_own first_key_lookup)

lemma read_rates_found:
  "find (\<lambda>e. P (fst e)) t = Some e \<Longrightarrow> read_rates t (fst e) = Rate (snd e)"
  by (simp add: read_rates_own find_fst_map_of)

text \<open>
  Where neither the provider nor the model names a member of \<open>Object.prototype\<close>,
  \<open>getPricing\<close> is the resolution of the specification and \<open>calculateCost\<close> the sum the
  specification gives.
\<close>

lemma getPricing_resolve:
  assumes provider: "str_of provider \<notin> set object_prototype_names"
    and model: "str_of model \<notin> set object_prototype_names"
  shows "getPricing host provider model = Rate (resolve_spec (str_of provider) (str_of model))"
proof (cases "truthy provider \<and> map_of PRICING (the provider) \<noteq> None")
  case False
  then have none: "map_of PRICING (str_of provider) = None"
    by (auto simp: truthy_def str_of_def PRICING_no_empty_provider split: option.splits)
  then have spec: "resolve_spec (str_of provider) (str_of model) = DEFAULT_PRICING"
    by (simp add: resolve_spec_def exact_match_def substring_match_def first_known_def
        known_models_def)
  have code: "getPricing host provider model = Rate DEFAULT_PRICING"
  proof (cases "truthy provider")
    case untruthy: False
    then show ?thesis
      by (simp add: getPricing_def)
  next
    case True
    then obtain p where p: "provider = Some p"
      by (auto simp: truthy_def split: option.splits)
    with provider none True show ?thesis
      by (simp add: getPricing_def str_of_def)
  qed
  from code spec show ?thesis by simp
next
  case True
  then obtain p t where p: "provider = Some p" and t: "map_of PRICING p = Some t"
    by (auto simp: truthy_def split: option.splits)
  have sp: "str_of provider = p"
    by (simp add: str_of_def p)
  have known: "known_models p = t"
    by (simp add: known_models_def t)
  have no_empty: "map_of t [] = None"
    using t by (rule PRICING_no_empty_model)
  show ?thesis
  proof (cases "truthy model")
    case model_given: True
    then obtain m where m: "model = Some m" and "m \<noteq> []"
      by (auto simp: truthy_def split: option.splits)
    have sm: "str_of model = m"
      by (simp add: str_of_def m)
    have m_own: "m \<notin> set object_prototype_names"
      using model by (simp add: sm)
    show ?thesis
    proof (cases "map_of t m")
      case (Some r)
      then have "read_rates t m = Rate r"
        by (rule read_rates_own)
      then have code: "getPricing host provider model = Rate r"
        using True model_given by (simp add: getPricing_def p t m)
      from Some have spec: "resolve_spec p m = r"
        by (simp add: resolve_spec_def exact_match_def known)
      from code spec show ?thesis
        by (simp add: sp sm)
    next
      case None
      then have undefined: "read_rates t m = Undefined"
        using m_own by (rule read_rates_absent)
      show ?thesis
      proof (cases "find (\<lambda>e. sublist (fst e) m \<or> sublist m (fst e)) t")
        case found: (Some e)
        then have "read_rates t (fst e) = Rate (snd e)"
          by (rule read_rates_found)
        with found undefined True model_given
        have code: "getPricing host provider model = Rate (snd e)"
          by (simp add: getPricing_def p t m Let_def find_map_fst indexOf_found_def)
        from found None have spec: "resolve_spec p m = snd e"
          by (simp add: resolve_spec_def exact_match_def substring_match_def known)
        from code spec show ?thesis
          by (simp add: sp sm)
      next
        case nomatch: None
        have code: "getPricing host provider model =
                      (if t = [] then Rate DEFAULT_PRICING else Rate (snd (hd t)))"
          using nomatch undefined True model_given
          by (simp add: getPricing_def p t m Let_def find_map_fst indexOf_found_def
              read_rates_first)
        have spec: "resolve_spec p m = (if t = [] then DEFAULT_PRICING else snd (hd t))"
          using nomatch None
          by (simp add: resolve_spec_def exact_match_def substring_match_def first_known_hd
              known)
        from code spec show ?thesis
          by (simp add: sp sm)
      qed
    qed
  next
    case nomodel: False
    then have m: "str_of model = []"
      by (auto simp: truthy_def str_of_def split: option.splits)
    have code: "getPricing host provider model =
                  (if t = [] then Rate DEFAULT_PRICING else Rate (snd (hd t)))"
      using nomodel True
      by (simp add: getPricing_def p t Let_def read_rates_first)
    have "find (\<lambda>e. sublist (fst e) [] \<or> sublist [] (fst e)) t
            = (if t = [] then None else Some (hd t))"
      by (cases t) auto
    then have spec: "resolve_spec p [] = (if t = [] then DEFAULT_PRICING else snd (hd t))"
      using no_empty
      by (simp add: resolve_spec_def exact_match_def substring_match_def first_known_hd
          known)
    from code spec show ?thesis
      by (simp add: sp m)
  qed
qed

lemma calculateCost_own_keys:
  assumes "str_of provider \<notin> set object_prototype_names"
    and "str_of model \<notin> set object_prototype_names"
  shows "calculateCost host provider model inputUnits outputUnits =
       Inr (Num
         (inputUnits / 1000000 * input_rate (resolve_spec (str_of provider) (str_of model))
          + outputUnits / 1000000 * output_rate (resolve_spec (str_of provider) (str_of model))))"
  using assms by (simp add: calculateCost_def getPricing_resolve Let_def)

text \<open>Whatever the provider and the model, \<open>getPricing\<close> returns a value and nothing is raised.\<close>

lemma read_rates_key: "key \<in> set (map fst t) \<Longrightarrow> read_rates t key \<noteq> Undefined"
proof -
  assume "key \<in> set (map fst t)"
  then have "map_of t key \<noteq> None"
    by (simp add: map_of_eq_None_iff)
  then show ?thesis
    by (auto simp: read_rates_def)
qed

lemma find_in_set: "find P xs = Some x \<Longrightarrow> x \<in> set xs"
  by (auto simp: find_Some_iff)

lemma getPricing_defined: "getPricing host provider model \<noteq> Undefined"
proof (cases "truthy provider")
  case False
  then show ?thesis
    by (simp add: getPricing_def)
next
  case True
  show ?thesis
  proof (cases "map_of PRICING (the provider)")
    case None
    with True show ?thesis
      by (simp add: getPricing_def)
  next
    case (Some t)
    let ?exact = "truthy model \<and> read_rates t (the model) \<noteq> Undefined"
    let ?found = "if truthy model
                  then find (\<lambda>key. indexOf_found (the model) key \<or> indexOf_found key (the model))
                         (map fst t)
                  else None"
    show ?thesis
    proof (cases ?exact)
      case exact: True
      with True Some show ?thesis
        by (simp add: getPricing_def)
    next
      case no_exact: False
      show ?thesis
      proof (cases ?found)
        case (Some key)
        then have "key \<in> set (map fst t)"
          by (auto split: if_splits dest: find_in_set)
        then have "read_rates t key \<noteq> Undefined"
          by (rule read_rates_key)
        with True \<open>map_of PRICING (the provider) = Some t\<close> no_exact Some show ?thesis
          by (simp add: getPricing_def)
      next
        case None
        have "t \<noteq> [] \<Longrightarrow> read_rates t (fst (t ! 0)) \<noteq> Undefined"
          by (simp add: read_rates_first)
        with True \<open>map_of PRICING (the provider) = Some t\<close> no_exact None show ?thesis
          by (auto simp: getPricing_def Let_def)
      qed
    qed
  qed
qed

lemma calculateCost_Inr: "\<exists>cost. calculateCost host p m i out = Inr cost"
  using getPricing_defined [of host p m]
  by (cases "getPricing host p m") (simp_all add: calculateCost_def Let_def)


text \<open>
  Claim C10. The counters of \<open>createEmptyUsage\<close> satisfy
  \<open>totalTokens = inputTokens + outputTokens\<close>, and \<open>addUsage\<close> keeps the equality for a
  \<open>null\<close> delta and for every delta whose \<open>totalTokens\<close> is missing, zero, or the sum of
  the delta's own input and output tokens.
\<close>

theorem addUsage_preserves_total:
  "usage_consistent createEmptyUsage
   \<and> (usage_consistent tot \<longrightarrow>
        (\<forall>u. delta = Some u \<longrightarrow>
           u_totalTokens u = None \<or> u_totalTokens u = Some 0
           \<or> u_totalTokens u = Some (or_zero (u_inputTokens u) + or_zero (u_outputTokens u))) \<longrightarrow>
        usage_consistent (addUsage tot delta))"
  by (auto simp: usage_consistent_def createEmptyUsage_def addUsage_def split: option.splits)

theorem addUsage_preserves_total_witness:
  "usage_consistent
     (addUsage (addUsage createEmptyUsage
        (Some \<lparr>u_inputTokens = Some 10, u_outputTokens = Some 5, u_totalTokens = None\<rparr>))
        (Some \<lparr>u_inputTokens = Some 3, u_outputTokens = Some 2, u_totalTokens = Some 5\<rparr>))
   \<and> totalTokens
     (addUsage (addUsage createEmptyUsage
        (Some \<lparr>u_inputTokens = Some 10, u_outputTokens = Some 5, u_totalTokens = None\<rparr>))
        (Some \<lparr>u_inputTokens = Some 3, u_outputTokens = Some 2, u_totalTokens = Some 5\<rparr>)) = 20"
proof -
  let ?d1 = "\<lparr>u_inputTokens = Some 10, u_outputTokens = Some 5, u_totalTokens = None\<rparr>"
  let ?d2 = "\<lparr>u_inputTokens = Some 3, u_outputTokens = Some 2, u_totalTokens = Some 5\<rparr>"
  have first: "usage_consistent (addUsage createEmptyUsage (Some ?d1))"
    using addUsage_preserves_total [of createEmptyUsage "Some ?d1"] by simp
  have "usage_consistent (addUsage (addUsage createEmptyUsage (Some ?d1)) (Some ?d2))"
    using addUsage_preserves_total [of "addUsage createEmptyUsage (Some ?d1)" "Some ?d2"] first
    by (simp add: or_zero_def)
  moreover have "totalTokens (addUsage (addUsage createEmptyUsage (Some ?d1)) (Some ?d2)) = 20"
    by (simp add: addUsage_def createEmptyUsage_def or_zero_def)
  ultimately show ?thesis by simp
qed

section \<open>Properties of the retry loop\<close>

declare withRetry_loop.simps [simp del]

lemma calls_append [simp]: "calls (xs @ ys) = calls xs + calls ys"
  by (simp add: calls_def)

lemma calls_simps [simp]:
  "calls [] = 0" "calls (Call k # tr) = Suc (calls tr)" "calls (Sleep d # tr) = calls tr"
  by (simp_all add: calls_def)

lemma sleeps_append [simp]: "sleeps (xs @ ys) = sleeps xs @ sleeps ys"
  by (simp add: sleeps_def)

lemma sleeps_simps [simp]:
  "sleeps [] = []" "sleeps (Call k # tr) = sleeps tr" "sleeps (Sleep d # tr) = d # sleeps tr"
  by (simp_all add: sleeps_def)






text \<open>
  What the delay block does with a RateLimit failure that carries a response: a
  non-zero hint is the delay; with no hint the backoff is computed from the doubled
  base delay.
\<close>

lemma retry_delay_hint:
  assumes "parseRetryAfter (date_parse env) (date_now env a) resp = Some d" and "d \<noteq> 0"
  shows "retry_delay env b m a RATE_LIMIT (Some resp) = real_of_int d"
  using assms by (simp add: retry_delay_def)

lemma retry_delay_no_hint:
  assumes "parseRetryAfter (date_parse env) (date_now env a) resp = None"
  shows "retry_delay env b m a RATE_LIMIT (Some resp) = getRetryDelay (random env a) a (b * 2) m"
  using assms by (simp add: retry_delay_def)

lemma parseInt_zero: "parseInt ''0'' = Some 0"
  by (simp add: parseInt_def isWhiteSpace_def isDigit_def digits_value_def)

lemma parseInt_date: "parseInt ''Wed, 21 Oct 2015 07:28:00 GMT'' = None"
  by (simp add: parseInt_def isWhiteSpace_def isDigit_def)

text \<open>
  Claim C7, at the inputs where the code departs from it. A 429 response with
  \<open>retry-after: 0\<close>, and one whose \<open>retry-after\<close> is a date in the past, both carry the
  hint of zero milliseconds (\<open>parseRetryAfter\<close> returns 0), yet the retry sleeps for the
  backoff computed from the doubled base delay, 2000 milliseconds here.
\<close>

theorem withRetry_zero_retry_after_ignored:
  "parseRetryAfter (\<lambda>s. None) 0 \<lparr>status = 429, retry_after = Some ''0''\<rparr> = Some 0
   \<and> withRetry
       \<lparr>fn = (\<lambda>k. if k = 0
                   then Inl \<lparr>message = ''Too Many Requests'',
                             response = Some \<lparr>status = 429, retry_after = Some ''0''\<rparr>\<rparr>
                   else Inr ()),
        random = (\<lambda>k. 0), date_now = (\<lambda>k. 0), date_parse = (\<lambda>s. None)\<rparr>
       \<lparr>maxRetries = None, baseDelay = None, maxDelay = None, onRetry = None\<rparr>
     = ([Call 0, Sleep 2000, Call 1], Inr ())
   \<and> parseRetryAfter (\<lambda>s. Some 1445412480000) 1700000000000
       \<lparr>status = 429, retry_after = Some ''Wed, 21 Oct 2015 07:28:00 GMT''\<rparr> = Some 0
   \<and> withRetry
       \<lparr>fn = (\<lambda>k. if k = 0
                   then Inl \<lparr>message = ''Too Many Requests'',
                             response = Some \<lparr>status = 429,
                               retry_after = Some ''Wed, 21 Oct 2015 07:28:00 GMT''\<rparr>\<rparr>
                   else Inr ()),
        random = (\<lambda>k. 0), date_now = (\<lambda>k. 1700000000000),
        date_parse = (\<lambda>s. Some 1445412480000)\<rparr>
       \<lparr>maxRetries = None, baseDelay = None, maxDelay = None, onRetry = None\<rparr>
     = ([Call 0, Sleep 2000, Call 1], Inr ())"
proof -
  have hint: "parseRetryAfter (\<lambda>s. None) 0 \<lparr>status = 429, retry_after = Some ''0''\<rparr> = Some 0"
    by (simp add: parseRetryAfter_def parseInt_zero)
  have past: "parseRetryAfter (\<lambda>s. Some 1445412480000) 1700000000000
       \<lparr>status = 429, retry_after = Some ''Wed, 21 Oct 2015 07:28:00 GMT''\<rparr> = Some 0"
    by (simp add: parseRetryAfter_def parseInt_date)
  from hint past show ?thesis
    by (simp add: withRetry_def withRetry_loop.simps max_retries_of_def or_default_def
        on_retry_of_def classifyError_def isRetryable_def retryableTypes_def retry_delay_def
        getRetryDelay_def Let_def)
qed

section \<open>Properties of the batch scheduler\<close>

subsection \<open>Promises and arrays\<close>

lemma fold_slots:
  "length (fold (\<lambda>pos acc. if pos < n then acc[pos := Some (ps ! pos)] else acc) order init)
     = length init
   \<and> (\<forall>i < length init.
        fold (\<lambda>pos acc. if pos < n then acc[pos := Some (ps ! pos)] else acc) order init ! i
          = (if i \<in> set order \<and> i < n then Some (ps ! i) else init ! i))"
proof (induction order arbitrary: init)
  case Nil
  show ?case by simp
next
  case (Cons pos order)
  show ?case
    using Cons.IH [of "if pos < n then init[pos := Some (ps ! pos)] else init"]
    by (auto simp: nth_list_update)
qed

lemma promise_all_complete:
  assumes "completion_order (length ps) order"
  shows "promise_all order ps = Some ps"
proof -
  let ?slots = "fold (\<lambda>pos acc. if pos < length ps then acc[pos := Some (ps ! pos)] else acc)
                  order (replicate (length ps) None)"
  have "set (sort order) = set [0..<length ps]"
    using assms by (simp add: completion_order_def)
  then have covered: "set order = {0..<length ps}"
    by simp
  have len: "length ?slots = length ps"
    using fold_slots [of "length ps" ps order "replicate (length ps) None"] by simp
  have nth: "?slots ! i = Some (ps ! i)" if "i < length ps" for i
    using fold_slots [of "length ps" ps order "replicate (length ps) None"] that covered
    by simp
  have "?slots = map Some ps"
    by (rule nth_equalityI) (simp_all add: len nth)
  then show ?thesis
    by (simp add: promise_all_def Let_def list_all_iff comp_def)
qed

lemma filter_truthy_map_Some: "filter_truthy (map Some xs) = xs"
  by (induction xs) (simp_all add: filter_truthy_def)

lemma fst_analyzeWithErrorHandling [simp]: "fst (analyzeWithErrorHandling w ob i) = i"
  by (simp add: analyzeWithErrorHandling_def split: sum.splits)

lemma window_promises:
  assumes "e \<le> length objs"
  shows "map (\<lambda>(batchIndex, ob). F ob (s + batchIndex)) (enumerate 0 (slice objs s e))
           = map (\<lambda>i. F (objs ! i) i) [s..<e]"
proof (rule nth_equalityI)
  show "length (map (\<lambda>(batchIndex, ob). F ob (s + batchIndex)) (enumerate 0 (slice objs s e)))
          = length (map (\<lambda>i. F (objs ! i) i) [s..<e])"
    using assms by (simp add: slice_def)
next
  fix i
  assume "i < length (map (\<lambda>(batchIndex, ob). F ob (s + batchIndex))
                        (enumerate 0 (slice objs s e)))"
  then have i: "i < e - s"
    using assms by (simp add: slice_def)
  then have "slice objs s e ! i = objs ! (s + i)"
    using assms by (simp add: slice_def)
  with i assms
  show "map (\<lambda>(batchIndex, ob). F ob (s + batchIndex)) (enumerate 0 (slice objs s e)) ! i
          = map (\<lambda>i. F (objs ! i) i) [s..<e] ! i"
    by (simp add: slice_def nth_enumerate_eq)
qed

subsection \<open>The state after a range of items\<close>

lemma after_items_empty [simp]: "e \<le> s \<Longrightarrow> after_items w objs s e vars = vars"
  by (simp add: after_items_def)

lemma after_items_append:
  "s \<le> m \<Longrightarrow> m \<le> e \<Longrightarrow>
     after_items w objs m e (after_items w objs s m vars) = after_items w objs s e vars"
proof -
  assume "s \<le> m" and "m \<le> e"
  then have "[s..<e] = [s..<m] @ [m..<e]"
    by (metis le_Suc_ex upt_add_eq_append)
  then show ?thesis
    by (simp add: after_items_def)
qed

lemma after_items_objectSummaries:
  assumes "length (objectSummaries vars) = s" and "s \<le> e"
  shows "objectSummaries (after_items w objs s e vars)
           = objectSummaries vars @ map (\<lambda>i. Some (outcome w objs i)) [s..<e]"
  using assms(2)
proof (induction e)
  case 0
  then show ?case by simp
next
  case (Suc e)
  show ?case
  proof (cases "s = Suc e")
    case True
    then show ?thesis by simp
  next
    case False
    with Suc.prems have le: "s \<le> e" by simp
    have IH: "objectSummaries (after_items w objs s e vars)
                = objectSummaries vars @ map (\<lambda>i. Some (outcome w objs i)) [s..<e]"
      using Suc.IH le by simp
    have step: "after_items w objs s (Suc e) vars
                  = store_result (analyzeWithErrorHandling w (objs ! e) e)
                      (after_items w objs s e vars)"
      using le by (simp add: after_items_def)
    have "length (objectSummaries (after_items w objs s e vars)) = e"
      using IH assms(1) le by simp
    then show ?thesis
      using le by (simp add: step store_result_def array_store_def IH outcome_def)
  qed
qed

subsection \<open>The loop, window by window\<close>

lemma batch_loop_done:
  "length objs \<le> s \<Longrightarrow> batch_loop bs c sched w objs s ivk vars = Some (ivk, Inr vars)"
  by (subst batch_loop.simps) simp

lemma batch_loop_cancelled:
  "s < length objs \<Longrightarrow> c s \<Longrightarrow>
     batch_loop bs c sched w objs s ivk vars = Some (ivk, Inl cancelled_error)"
  by (subst batch_loop.simps) simp

lemma batch_loop_window:
  assumes "s < length objs" and "\<not> c s"
    and "completion_order (min (s + bs) (length objs) - s) (sched s)"
  shows "batch_loop bs c sched w objs s ivk vars
           = batch_loop bs c sched w objs (s + bs) (ivk @ [s..<min (s + bs) (length objs)])
               (after_items w objs s (min (s + bs) (length objs)) vars)"
proof -
  let ?e = "min (s + bs) (length objs)"
  let ?promises = "map (\<lambda>(batchIndex, ob). analyzeWithErrorHandling w ob (s + batchIndex))
                     (enumerate 0 (slice objs s ?e))"
  have promises: "?promises = map (\<lambda>i. analyzeWithErrorHandling w (objs ! i) i) [s..<?e]"
    by (rule window_promises) simp
  have launched: "map (\<lambda>(batchIndex, ob). s + batchIndex) (enumerate 0 (slice objs s ?e))
                    = [s..<?e]"
    using window_promises [of ?e objs "\<lambda>ob i. i" s] by (simp add: map_idI)
  let ?results = "map (\<lambda>i. analyzeWithErrorHandling w (objs ! i) i) [s..<?e]"
  have "completion_order (length ?results) (sched s)"
    using assms(3) by simp
  then have all: "promise_all (sched s) ?results = Some ?results"
    by (rule promise_all_complete)
  show ?thesis
    using assms(1,2)
    by (subst batch_loop.simps)
      (simp add: Let_def promises all launched after_items_def del: upt_Suc)
qed

lemma upt_split: "a \<le> b \<Longrightarrow> b \<le> c \<Longrightarrow> [a..<b] @ [b..<c] = [a..<c]"
  by (metis le_Suc_ex upt_add_eq_append)

lemma window_end_ranges:
  fixes s bs n :: nat
  shows "[s + bs..<n] = [min (s + bs) n..<n]"
  by (cases "s + bs \<le> n") (simp_all add: min_def)

lemma next_boundary:
  fixes s bs c0 :: nat
  assumes "s mod bs = 0" and "c0 mod bs = 0" and "s < c0"
  shows "s + bs \<le> c0"
proof -
  have "bs dvd c0 - s"
    using assms(1,2) by (simp add: dvd_diff_nat mod_eq_0_iff_dvd)
  moreover have "0 < c0 - s"
    using assms(3) by simp
  ultimately have "bs \<le> c0 - s"
    by (rule dvd_imp_le)
  with assms(3) show ?thesis by simp
qed

lemma batch_loop_no_cancel:
  assumes "1 \<le> bs" and "valid_schedule bs (length objs) sched"
    and "s mod bs = 0"
    and "\<forall>t. s \<le> t \<and> t < length objs \<and> t mod bs = 0 \<longrightarrow> \<not> c t"
  shows "batch_loop bs c sched w objs s ivk vars
           = Some (ivk @ [s..<length objs], Inr (after_items w objs s (length objs) vars))"
  using assms(3,4)
proof (induction "length objs - s" arbitrary: s ivk vars rule: less_induct)
  case less
  show ?case
  proof (cases "s < length objs")
    case False
    then show ?thesis
      by (simp add: batch_loop_done)
  next
    case True
    let ?e = "min (s + bs) (length objs)"
    have order: "completion_order (?e - s) (sched s)"
      using assms(2) True less.prems(1) by (simp add: valid_schedule_def)
    have "\<not> c s"
      using less.prems True by simp
    with True have step:
      "batch_loop bs c sched w objs s ivk vars
         = batch_loop bs c sched w objs (s + bs) (ivk @ [s..<?e]) (after_items w objs s ?e vars)"
      using order by (rule batch_loop_window)
    have "length objs - (s + bs) < length objs - s"
      using True assms(1) by simp
    moreover have "(s + bs) mod bs = 0"
      using less.prems(1) by simp
    moreover have "\<forall>t. s + bs \<le> t \<and> t < length objs \<and> t mod bs = 0 \<longrightarrow> \<not> c t"
      using less.prems(2) by simp
    ultimately have IH:
      "batch_loop bs c sched w objs (s + bs) (ivk @ [s..<?e]) (after_items w objs s ?e vars)
         = Some ((ivk @ [s..<?e]) @ [s + bs..<length objs],
                 Inr (after_items w objs (s + bs) (length objs) (after_items w objs s ?e vars)))"
      by (rule less.hyps)
    have "[s..<?e] @ [?e..<length objs] = [s..<length objs]"
      using True by (intro upt_split) simp_all
    then have ranges: "[s..<?e] @ [s + bs..<length objs] = [s..<length objs]"
      by (simp only: window_end_ranges [of s bs "length objs"])
    have states: "after_items w objs (s + bs) (length objs) (after_items w objs s ?e vars)
                    = after_items w objs s (length objs) vars"
    proof (cases "s + bs \<le> length objs")
      case True
      then show ?thesis
        by (simp add: min_def after_items_append)
    next
      case False
      then show ?thesis
        by (simp add: min_def)
    qed
    show ?thesis
      by (simp only: step IH states append_assoc ranges)
  qed
qed

lemma batch_loop_cancel_at:
  assumes "1 \<le> bs" and "valid_schedule bs (length objs) sched"
    and "s mod bs = 0" and "s \<le> c0" and "c0 < length objs" and "c0 mod bs = 0" and "c c0"
    and "\<forall>t. s \<le> t \<and> t < c0 \<and> t mod bs = 0 \<longrightarrow> \<not> c t"
  shows "batch_loop bs c sched w objs s ivk vars = Some (ivk @ [s..<c0], Inl cancelled_error)"
  using assms(3,4,8)
proof (induction "c0 - s" arbitrary: s ivk vars rule: less_induct)
  case less
  show ?case
  proof (cases "s = c0")
    case True
    then show ?thesis
      using assms(5,7) by (simp add: batch_loop_cancelled)
  next
    case False
    with less.prems have lt: "s < c0" by simp
    have next_le: "s + bs \<le> c0"
      using less.prems(1) assms(6) lt by (rule next_boundary)
    then have e: "min (s + bs) (length objs) = s + bs"
      using assms(5) by simp
    have in_range: "s < length objs"
      using lt assms(5) by simp
    have not_cancelled: "\<not> c s"
      using less.prems lt by simp
    have order: "completion_order (min (s + bs) (length objs) - s) (sched s)"
      using assms(2) in_range less.prems(1) by (simp add: valid_schedule_def)
    have step:
      "batch_loop bs c sched w objs s ivk vars
         = batch_loop bs c sched w objs (s + bs) (ivk @ [s..<s + bs])
             (after_items w objs s (s + bs) vars)"
      using batch_loop_window [of s objs c bs sched w ivk vars, OF in_range not_cancelled order]
      by (simp add: e)
    have "c0 - (s + bs) < c0 - s"
      using lt assms(1) by simp
    moreover have "(s + bs) mod bs = 0"
      using less.prems(1) by simp
    moreover note next_le
    moreover have "\<forall>t. s + bs \<le> t \<and> t < c0 \<and> t mod bs = 0 \<longrightarrow> \<not> c t"
      using less.prems(3) by simp
    ultimately have IH:
      "batch_loop bs c sched w objs (s + bs) (ivk @ [s..<s + bs])
           (after_items w objs s (s + bs) vars)
         = Some ((ivk @ [s..<s + bs]) @ [s + bs..<c0], Inl cancelled_error)"
      by (rule less.hyps)
    have "[s..<s + bs] @ [s + bs..<c0] = [s..<c0]"
      using next_le by (intro upt_split) simp_all
    then show ?thesis
      by (simp only: step IH append_assoc)
  qed
qed

subsection \<open>The scheduler as a whole\<close>

lemma run_batches_no_cancel:
  assumes "1 \<le> bs" and "valid_schedule bs (length objs) sched"
    and "\<forall>t < length objs. t mod bs = 0 \<longrightarrow> \<not> c t"
  shows "run_batches bs c sched w objs
           = Some ([0..<length objs],
                   Inr (map (outcome w objs) [0..<length objs], batch_usage w objs))"
proof -
  have "batch_loop bs c sched w objs 0 [] initial_vars
          = Some ([] @ [0..<length objs], Inr (after_items w objs 0 (length objs) initial_vars))"
  proof (rule batch_loop_no_cancel)
    show "\<forall>t. 0 \<le> t \<and> t < length objs \<and> t mod bs = 0 \<longrightarrow> \<not> c t"
      using assms(3) by simp
  qed (use assms in simp_all)
  moreover have "objectSummaries (after_items w objs 0 (length objs) initial_vars)
          = objectSummaries initial_vars @ map (\<lambda>i. Some (outcome w objs i)) [0..<length objs]"
    by (rule after_items_objectSummaries) (simp_all add: initial_vars_def)
  then have "filter_truthy (objectSummaries (after_items w objs 0 (length objs) initial_vars))
          = map (outcome w objs) [0..<length objs]"
    using filter_truthy_map_Some [of "map (outcome w objs) [0..<length objs]"]
    by (simp add: initial_vars_def comp_def)
  ultimately show ?thesis
    by (simp add: run_batches_def batch_usage_def initial_vars_def)
qed

lemma run_batches_cancel_at:
  assumes "1 \<le> bs" and "valid_schedule bs (length objs) sched"
    and "c0 < length objs" and "c0 mod bs = 0" and "c c0"
    and "\<forall>t < c0. t mod bs = 0 \<longrightarrow> \<not> c t"
  shows "run_batches bs c sched w objs = Some ([0..<c0], Inl cancelled_error)"
proof -
  have "batch_loop bs c sched w objs 0 [] initial_vars
          = Some ([] @ [0..<c0], Inl cancelled_error)"
  proof (rule batch_loop_cancel_at)
    show "\<forall>t. 0 \<le> t \<and> t < c0 \<and> t mod bs = 0 \<longrightarrow> \<not> c t"
      using assms(6) by simp
  qed (use assms in simp_all)
  then show ?thesis
    by (simp add: run_batches_def initial_vars_def)
qed

lemma run_batches_cases:
  assumes "1 \<le> bs" and "valid_schedule bs (length objs) sched"
  shows "(\<exists>c0. c0 < length objs \<and> c c0 \<and>
            run_batches bs c sched w objs = Some ([0..<c0], Inl cancelled_error))
       \<or> ((\<forall>t < length objs. t mod bs = 0 \<longrightarrow> \<not> c t) \<and>
          run_batches bs c sched w objs
           = Some ([0..<length objs],
                   Inr (map (outcome w objs) [0..<length objs], batch_usage w objs)))"
proof (cases "\<exists>t < length objs. t mod bs = 0 \<and> c t")
  case True
  define c0 where "c0 = (LEAST t. t < length objs \<and> t mod bs = 0 \<and> c t)"
  from True obtain t0 where t0: "t0 < length objs \<and> t0 mod bs = 0 \<and> c t0"
    by (elim exE) simp
  have c0: "c0 < length objs \<and> c0 mod bs = 0 \<and> c c0"
    unfolding c0_def using t0 by (rule LeastI)
  have first: "\<forall>t < c0. t mod bs = 0 \<longrightarrow> \<not> c t"
  proof (intro allI impI notI)
    fix t
    assume lt: "t < c0" and "t mod bs = 0" and "c t"
    with c0 have "t < length objs \<and> t mod bs = 0 \<and> c t" by simp
    then have "c0 \<le> t"
      unfolding c0_def by (rule Least_le)
    with lt show False by simp
  qed
  have "run_batches bs c sched w objs = Some ([0..<c0], Inl cancelled_error)"
  proof (rule run_batches_cancel_at)
    show "1 \<le> bs" and "valid_schedule bs (length objs) sched"
      by fact+
    show "c0 < length objs" and "c0 mod bs = 0" and "c c0"
      using c0 by simp_all
    show "\<forall>t < c0. t mod bs = 0 \<longrightarrow> \<not> c t"
      by (rule first)
  qed
  with c0 show ?thesis
    by (intro disjI1 exI [of _ c0]) simp
next
  case False
  have none: "\<forall>t < length objs. t mod bs = 0 \<longrightarrow> \<not> c t"
  proof (intro allI impI notI)
    fix t
    assume "t < length objs" and "t mod bs = 0" and "c t"
    then have "\<exists>t < length objs. t mod bs = 0 \<and> c t"
      by (intro exI [of _ t]) simp
    with False show False ..
  qed
  with assms have "run_batches bs c sched w objs
           = Some ([0..<length objs],
                   Inr (map (outcome w objs) [0..<length objs], batch_usage w objs))"
    by (rule run_batches_no_cancel)
  with none show ?thesis
    by (intro disjI2 conjI)
qed

lemma outcome_failed:
  assumes "w k (objs ! k) = Inl err"
  shows "outcome w objs k
           = \<lparr>d_id = obj_id (objs ! k), d_title = obj_title (objs ! k),
              d_type = obj_type (objs ! k), d_summary = ''Analysis failed: '' @ message err,
              d_showHoverMenu = obj_showHoverMenu (objs ! k), d_error = True, d_usage = None\<rparr>"
  using assms by (simp add: outcome_def analyzeWithErrorHandling_def)

lemma outcome_cong: "w' i = w i \<Longrightarrow> outcome w' objs i = outcome w objs i"
  by (simp add: outcome_def analyzeWithErrorHandling_def)

lemma valid_schedule_reversed: "valid_schedule bs n (reversed_completion bs n)"
proof -
  have "sort (rev [0..<m]) = [0..<m]" for m :: nat
    by (rule sorted_distinct_set_unique) simp_all
  then show ?thesis
    by (simp add: valid_schedule_def completion_order_def reversed_completion_def)
qed

subsection \<open>\<open>analyzeSheet\<close> around the scheduler\<close>

lemma BATCH_SIZE_pos: "1 \<le> BATCH_SIZE"
  by (simp add: BATCH_SIZE_def)

lemma analyzeSheet_batches:
  assumes "getSheetObjects env = Inr allObjects"
    and "\<not> cancelToken env AfterFetch"
    and "filterObjects env allObjects \<noteq> []"
    and "getCurrentSelections env = None"
    and "\<not> cancelToken env AfterSelections"
    and "provider_found (cfg_provider cfg)"
  shows "analyzeSheet env cfg =
     (case run_batches BATCH_SIZE (\<lambda>batchStart. cancelToken env (BeforeBatch batchStart))
             (completion env) (analyzeObject env) (filterObjects env allObjects) of
        None \<Rightarrow> None
      | Some (invoked, Inl err) \<Rightarrow> Some (invoked, Inl err)
      | Some (invoked, Inr (summaries, usage_total)) \<Rightarrow>
          if cancelToken env BeforeSheetSummary then Some (invoked, Inl cancelled_error)
          else
            (case generateSheetSummary env summaries of
               Inl err \<Rightarrow> Some (invoked, Inl err)
             | Inr sheetResult \<Rightarrow>
                 Some (invoked,
                   Inr \<lparr>sheetSummary = r_text sheetResult,
                        res_objectSummaries = summaries,
                        analyzedObjects = Some (filterObjects env allObjects),
                        res_usage = Some
                          ((case r_usage sheetResult of
                              Some u \<Rightarrow> addUsage usage_total (Some u)
                            | None \<Rightarrow> usage_total)
                           \<lparr>estimatedCost :=
                              projr (calculateCost (builtin_property env)
                                (Some (cfg_provider cfg)) (cfg_model cfg)
                                (real_of_int (inputTokens
                                   (case r_usage sheetResult of
                                      Some u \<Rightarrow> addUsage usage_total (Some u)
                                    | None \<Rightarrow> usage_total)))
                                (real_of_int (outputTokens
                                   (case r_usage sheetResult of
                                      Some u \<Rightarrow> addUsage usage_total (Some u)
                                    | None \<Rightarrow> usage_total))))\<rparr>)\<rparr>)))"
proof -
  have cost: "(case calculateCost h p m i out of Inl TypeError \<Rightarrow> a | Inr cost \<Rightarrow> f cost)
                = f (projr (calculateCost h p m i out))"
    for h p m i out a and f :: "js_number \<Rightarrow> 'b"
    using calculateCost_Inr [of h p m i out] by auto
  show ?thesis
    using assms
    by (simp add: analyzeSheet_def Let_def cost
        split: option.splits sum.splits prod.splits)
qed

lemma analyzeSheet_objectSummaries:
  assumes valid: "valid_schedule BATCH_SIZE (length (filterObjects env allObjects)) (completion env)"
    and fetch: "getSheetObjects env = Inr allObjects"
    and ret: "analyzeSheet env cfg = Some (invoked, Inr res)"
  shows "res_objectSummaries res
           = map (outcome (analyzeObject env) (filterObjects env allObjects))
               [0..<length (filterObjects env allObjects)]"
proof (cases "filterObjects env allObjects = []")
  case True
  with ret fetch show ?thesis
    by (auto simp: analyzeSheet_def Let_def split: if_splits)
next
  case False
  let ?items = "filterObjects env allObjects"
  let ?rb = "run_batches BATCH_SIZE (\<lambda>batchStart. cancelToken env (BeforeBatch batchStart))
               (completion env) (analyzeObject env) ?items"
  have pre: "\<not> cancelToken env AfterFetch" "getCurrentSelections env = None"
    "\<not> cancelToken env AfterSelections" "provider_found (cfg_provider cfg)"
    using ret fetch False
    by (auto simp: analyzeSheet_def Let_def split: if_splits option.splits)
  note unfold = analyzeSheet_batches [OF fetch pre(1) False pre(2,3,4)]
  from run_batches_cases [OF BATCH_SIZE_pos valid,
      of "\<lambda>batchStart. cancelToken env (BeforeBatch batchStart)" "analyzeObject env"]
  show ?thesis
  proof (elim disjE exE conjE)
    fix c0
    assume "?rb = Some ([0..<c0], Inl cancelled_error)"
    with ret unfold show ?thesis by simp
  next
    assume "?rb = Some ([0..<length ?items],
                   Inr (map (outcome (analyzeObject env) ?items) [0..<length ?items],
                        batch_usage (analyzeObject env) ?items))"
    with ret unfold show ?thesis
      by (auto split: if_splits sum.splits)
  qed
qed


lemma analyzeSheet_returns:
  assumes valid: "valid_schedule BATCH_SIZE (length (filterObjects env allObjects)) (completion env)"
    and fetch: "getSheetObjects env = Inr allObjects"
    and items: "filterObjects env allObjects \<noteq> []"
    and selections: "getCurrentSelections env = None"
    and known: "provider_found (cfg_provider cfg)"
    and token: "\<forall>p. \<not> cancelToken env p"
    and sheet: "generateSheetSummary env
                  (map (outcome (analyzeObject env) (filterObjects env allObjects))
                     [0..<length (filterObjects env allObjects)]) = Inr sheetResult"
  shows "\<exists>res. analyzeSheet env cfg
           = Some ([0..<length (filterObjects env allObjects)], Inr res)"
proof -
  have "run_batches BATCH_SIZE (\<lambda>batchStart. cancelToken env (BeforeBatch batchStart))
          (completion env) (analyzeObject env) (filterObjects env allObjects)
          = Some ([0..<length (filterObjects env allObjects)],
                  Inr (map (outcome (analyzeObject env) (filterObjects env allObjects))
                         [0..<length (filterObjects env allObjects)],
                       batch_usage (analyzeObject env) (filterObjects env allObjects)))"
    using BATCH_SIZE_pos valid by (rule run_batches_no_cancel) (simp add: token)
  then show ?thesis
    using analyzeSheet_batches [OF fetch _ items selections _ known] token sheet
    by simp
qed

lemma length_sample_objects: "length sample_objects = 5"
  by (simp add: sample_objects_def)

lemma sample_failed_outcome:
  "outcome sample_worker sample_objects 2
     = \<lparr>d_id = ''c'', d_title = ''c'', d_type = ''kpi'',
        d_summary = ''Analysis failed: bad request'', d_showHoverMenu = False,
        d_error = True, d_usage = None\<rparr>"
  by (simp add: outcome_def analyzeWithErrorHandling_def sample_worker_def sample_failure_def
      sample_objects_def)

lemma sample_valid_schedule: "valid_schedule 3 (length sample_objects) (reversed_completion 3 5)"
  using valid_schedule_reversed [of 3 5] by (simp add: length_sample_objects)

subsection \<open>The claims about the scheduler\<close>

text \<open>
  Claim C1. For every list of \<open>N\<close> items and every batch size \<open>C \<ge> 1\<close>, whatever the
  order in which the calls of each window complete, the scheduler ends; when it returns
  (it does unless the token is found cancelled), its array has exactly \<open>N\<close> entries and
  the entry at position \<open>i\<close> is the outcome produced for item \<open>i\<close>. So has the
  \<open>objectSummaries\<close> array that \<open>analyzeSheet\<close>, with its batch size of 3, returns.
\<close>

theorem objectSummaries_in_input_order:
  "(1 \<le> C \<and> valid_schedule C (length items) sched \<longrightarrow>
      (\<exists>invoked r. run_batches C cancelled sched worker items = Some (invoked, r)
         \<and> (\<forall>out tot. r = Inr (out, tot) \<longrightarrow>
               length out = length items
               \<and> (\<forall>i < length items. out ! i = outcome worker items i))
         \<and> ((\<forall>s. \<not> cancelled s) \<longrightarrow> (\<exists>out tot. r = Inr (out, tot)))))
   \<and> (valid_schedule BATCH_SIZE (length (filterObjects env allObjects)) (completion env)
       \<and> getSheetObjects env = Inr allObjects
       \<and> analyzeSheet env cfg = Some (invoked', Inr res) \<longrightarrow>
         length (res_objectSummaries res) = length (filterObjects env allObjects)
         \<and> (\<forall>i < length (filterObjects env allObjects).
               res_objectSummaries res ! i
                 = outcome (analyzeObject env) (filterObjects env allObjects) i))"
proof (intro conjI impI)
  assume h: "1 \<le> C \<and> valid_schedule C (length items) sched"
  then have C: "1 \<le> C" and valid: "valid_schedule C (length items) sched"
    by simp_all
  from run_batches_cases [OF C valid, of cancelled worker]
  show "\<exists>invoked r. run_batches C cancelled sched worker items = Some (invoked, r)
         \<and> (\<forall>out tot. r = Inr (out, tot) \<longrightarrow>
               length out = length items
               \<and> (\<forall>i < length items. out ! i = outcome worker items i))
         \<and> ((\<forall>s. \<not> cancelled s) \<longrightarrow> (\<exists>out tot. r = Inr (out, tot)))"
  proof (elim disjE exE conjE)
    fix c0
    assume "cancelled c0"
      and "run_batches C cancelled sched worker items = Some ([0..<c0], Inl cancelled_error)"
    then show ?thesis
      by (intro exI [of _ "[0..<c0]"] exI [of _ "Inl cancelled_error"] conjI) auto
  next
    assume "run_batches C cancelled sched worker items
         = Some ([0..<length items],
                 Inr (map (outcome worker items) [0..<length items], batch_usage worker items))"
    then show ?thesis
      by (intro exI [of _ "[0..<length items]"]
          exI [of _ "Inr (map (outcome worker items) [0..<length items],
                          batch_usage worker items)"] conjI) simp_all
  qed
next
  assume h: "valid_schedule BATCH_SIZE (length (filterObjects env allObjects)) (completion env)
       \<and> getSheetObjects env = Inr allObjects
       \<and> analyzeSheet env cfg = Some (invoked', Inr res)"
  then have eq: "res_objectSummaries res
           = map (outcome (analyzeObject env) (filterObjects env allObjects))
               [0..<length (filterObjects env allObjects)]"
    using analyzeSheet_objectSummaries [of env allObjects cfg invoked' res] by simp
  show "length (res_objectSummaries res) = length (filterObjects env allObjects)"
    by (simp add: eq)
  show "\<forall>i < length (filterObjects env allObjects).
               res_objectSummaries res ! i
                 = outcome (analyzeObject env) (filterObjects env allObjects) i"
    by (simp add: eq)
qed

theorem objectSummaries_in_input_order_witness:
  "valid_schedule 3 (length sample_objects) (reversed_completion 3 5)
   \<and> (\<exists>invoked out tot.
        run_batches 3 (\<lambda>s. False) (reversed_completion 3 5) sample_worker sample_objects
          = Some (invoked, Inr (out, tot))
        \<and> length out = 5
        \<and> d_summary (out ! 2) = ''Analysis failed: bad request'')
   \<and> (\<exists>invoked res.
        analyzeSheet (sample_env (\<lambda>p. False)) sample_config = Some (invoked, Inr res)
        \<and> length (res_objectSummaries res) = 5
        \<and> d_summary (res_objectSummaries res ! 2) = ''Analysis failed: bad request'')"
proof -
  let ?env = "sample_env (\<lambda>p. False)"
  have env: "getSheetObjects ?env = Inr sample_objects"
    "filterObjects ?env sample_objects = sample_objects"
    "completion ?env = reversed_completion 3 5" "analyzeObject ?env = sample_worker"
    by (simp_all add: sample_env_def BATCH_SIZE_def)
  have valid': "valid_schedule BATCH_SIZE (length (filterObjects ?env sample_objects))
                  (completion ?env)"
    using sample_valid_schedule by (simp add: env BATCH_SIZE_def)
  have "\<exists>res. analyzeSheet ?env sample_config
           = Some ([0..<length (filterObjects ?env sample_objects)], Inr res)"
    using valid' env(1)
  proof (rule analyzeSheet_returns)
    show "filterObjects ?env sample_objects \<noteq> []"
      unfolding env(2) by (simp add: sample_objects_def)
    show "getCurrentSelections ?env = None"
      by (simp add: sample_env_def)
    show "provider_found (cfg_provider sample_config)"
      by (simp add: provider_found_def sample_config_def providers_def)
    show "\<forall>p. \<not> cancelToken ?env p"
      by (simp add: sample_env_def)
    show "generateSheetSummary ?env
            (map (outcome (analyzeObject ?env) (filterObjects ?env sample_objects))
               [0..<length (filterObjects ?env sample_objects)]) = Inr sample_result"
      by (simp add: sample_env_def)
  qed
  then obtain res where ret:
    "analyzeSheet ?env sample_config = Some ([0..<length sample_objects], Inr res)"
    by (auto simp: env)
  note claim = objectSummaries_in_input_order
    [where C = 3 and items = sample_objects and sched = "reversed_completion 3 5"
       and cancelled = "\<lambda>s. False" and worker = sample_worker and env = ?env
       and allObjects = sample_objects and cfg = sample_config
       and invoked' = "[0..<length sample_objects]" and res = res]
  from claim sample_valid_schedule
  obtain invoked r where run:
    "run_batches 3 (\<lambda>s. False) (reversed_completion 3 5) sample_worker sample_objects
       = Some (invoked, r)"
    and shape: "\<forall>out tot. r = Inr (out, tot) \<longrightarrow>
               length out = length sample_objects
               \<and> (\<forall>i < length sample_objects. out ! i = outcome sample_worker sample_objects i)"
    and returns: "\<exists>out tot. r = Inr (out, tot)"
    by auto
  from returns obtain out tot where r: "r = Inr (out, tot)"
    by (elim exE)
  with shape have out: "length out = 5" "out ! 2 = outcome sample_worker sample_objects 2"
    by (simp_all add: length_sample_objects)
  have first: "\<exists>invoked out tot.
        run_batches 3 (\<lambda>s. False) (reversed_completion 3 5) sample_worker sample_objects
          = Some (invoked, Inr (out, tot))
        \<and> length out = 5
        \<and> d_summary (out ! 2) = ''Analysis failed: bad request''"
    using run r out
    by (intro exI [of _ invoked] exI [of _ out] exI [of _ tot]) (simp add: sample_failed_outcome)
  from claim valid' env(1) ret
  have "length (res_objectSummaries res) = length (filterObjects ?env sample_objects)
         \<and> (\<forall>i < length (filterObjects ?env sample_objects).
               res_objectSummaries res ! i
                 = outcome (analyzeObject ?env) (filterObjects ?env sample_objects) i)"
    by simp
  then have "length (res_objectSummaries res) = 5"
    and "res_objectSummaries res ! 2 = outcome sample_worker sample_objects 2"
    by (simp_all add: env length_sample_objects)
  with ret have second: "\<exists>invoked res.
        analyzeSheet ?env sample_config = Some (invoked, Inr res)
        \<and> length (res_objectSummaries res) = 5
        \<and> d_summary (res_objectSummaries res ! 2) = ''Analysis failed: bad request''"
    by (intro exI [of _ "[0..<length sample_objects]"] exI [of _ res])
      (simp add: sample_failed_outcome)
  from sample_valid_schedule first second show ?thesis
    by (intro conjI)
qed

text \<open>
  Claim C2. When the worker throws for item \<open>k\<close>, the scheduler still ends, and what
  it throws, if anything, is the cancellation; when it returns, the entry at index \<open>k\<close>
  is the failed outcome carrying the error's message, and every other entry is what a
  worker that differs only in the call for item \<open>k\<close> would have produced.
\<close>

theorem worker_failure_isolated:
  assumes "1 \<le> C" and "valid_schedule C (length items) sched"
    and "k < length items" and "worker k (items ! k) = Inl err"
    and "\<forall>i. i \<noteq> k \<longrightarrow> worker' i = worker i"
  shows "\<exists>invoked r. run_batches C cancelled sched worker items = Some (invoked, r)
       \<and> (\<forall>e. r = Inl e \<longrightarrow> e = cancelled_error \<and> (\<exists>s < length items. cancelled s))
       \<and> ((\<forall>s. \<not> cancelled s) \<longrightarrow> (\<exists>out tot. r = Inr (out, tot)))
       \<and> (\<forall>out tot. r = Inr (out, tot) \<longrightarrow>
             length out = length items
             \<and> out ! k = \<lparr>d_id = obj_id (items ! k), d_title = obj_title (items ! k),
                          d_type = obj_type (items ! k),
                          d_summary = ''Analysis failed: '' @ message err,
                          d_showHoverMenu = obj_showHoverMenu (items ! k),
                          d_error = True, d_usage = None\<rparr>
             \<and> (\<exists>out' tot'. run_batches C cancelled sched worker' items
                                = Some (invoked, Inr (out', tot'))
                   \<and> length out' = length items
                   \<and> (\<forall>i < length items. i \<noteq> k \<longrightarrow> out ! i = out' ! i)))"
proof -
  from run_batches_cases [OF assms(1,2), of cancelled worker]
  show ?thesis
  proof (elim disjE exE conjE)
    fix c0
    assume c0: "c0 < length items" "cancelled c0"
      and thrown: "run_batches C cancelled sched worker items
                     = Some ([0..<c0], Inl cancelled_error)"
    have "\<exists>s < length items. cancelled s"
      using c0 by (intro exI [of _ c0]) simp
    moreover have "\<not> (\<forall>s. \<not> cancelled s)"
      using c0(2) by blast
    ultimately show ?thesis
      unfolding thrown
      by (intro exI [of _ "[0..<c0]"] exI [of _ "Inl cancelled_error"] conjI) simp_all
  next
    let ?out = "map (outcome worker items) [0..<length items]"
    let ?out' = "map (outcome worker' items) [0..<length items]"
    assume not_cancelled: "\<forall>t < length items. t mod C = 0 \<longrightarrow> \<not> cancelled t"
      and returns: "run_batches C cancelled sched worker items
         = Some ([0..<length items], Inr (?out, batch_usage worker items))"
    have other: "run_batches C cancelled sched worker' items
         = Some ([0..<length items], Inr (?out', batch_usage worker' items))"
      using assms(1,2) not_cancelled by (rule run_batches_no_cancel)
    have same: "\<forall>i < length items. i \<noteq> k \<longrightarrow> ?out ! i = ?out' ! i"
    proof (intro allI impI)
      fix i
      assume i: "i < length items" and "i \<noteq> k"
      with assms(5) have "worker' i = worker i" by simp
      then have "outcome worker' items i = outcome worker items i"
        by (rule outcome_cong)
      with i show "?out ! i = ?out' ! i" by simp
    qed
    have failed: "?out ! k
           = \<lparr>d_id = obj_id (items ! k), d_title = obj_title (items ! k),
              d_type = obj_type (items ! k), d_summary = ''Analysis failed: '' @ message err,
              d_showHoverMenu = obj_showHoverMenu (items ! k), d_error = True, d_usage = None\<rparr>"
      using assms(3,4) by (simp add: outcome_failed)
    have "\<exists>out' tot'. run_batches C cancelled sched worker' items
                                = Some ([0..<length items], Inr (out', tot'))
                   \<and> length out' = length items
                   \<and> (\<forall>i < length items. i \<noteq> k \<longrightarrow> ?out ! i = out' ! i)"
      using other same
      by (intro exI [of _ ?out'] exI [of _ "batch_usage worker' items"] conjI) simp_all
    with failed show ?thesis
      unfolding returns
      by (intro exI [of _ "[0..<length items]"]
          exI [of _ "Inr (?out, batch_usage worker items)"] conjI) simp_all
  qed
qed

theorem worker_failure_isolated_witness:
  "\<exists>invoked out tot out' tot'.
     run_batches 3 (\<lambda>s. False) (reversed_completion 3 5) sample_worker sample_objects
       = Some (invoked, Inr (out, tot))
     \<and> d_summary (out ! 2) = ''Analysis failed: bad request'' \<and> d_error (out ! 2)
     \<and> run_batches 3 (\<lambda>s. False) (reversed_completion 3 5) steady_worker sample_objects
         = Some (invoked, Inr (out', tot'))
     \<and> (\<forall>i < 5. i \<noteq> 2 \<longrightarrow> out ! i = out' ! i)"
proof -
  have k: "2 < length sample_objects"
    by (simp add: length_sample_objects)
  have fails: "sample_worker 2 (sample_objects ! 2) = Inl sample_failure"
    by (simp add: sample_worker_def)
  have agree: "\<forall>i. i \<noteq> 2 \<longrightarrow> steady_worker i = sample_worker i"
    by (simp add: steady_worker_def sample_worker_def fun_eq_iff)
  have C: "(1::nat) \<le> 3"
    by simp
  from worker_failure_isolated
    [OF C sample_valid_schedule k fails agree, of "\<lambda>s. False"]
  obtain invoked r where run:
    "run_batches 3 (\<lambda>s. False) (reversed_completion 3 5) sample_worker sample_objects
       = Some (invoked, r)"
    and returns: "(\<forall>s. \<not> False) \<longrightarrow> (\<exists>out tot. r = Inr (out, tot))"
    and shape: "\<forall>out tot. r = Inr (out, tot) \<longrightarrow>
             length out = length sample_objects
             \<and> out ! 2 = \<lparr>d_id = obj_id (sample_objects ! 2),
                          d_title = obj_title (sample_objects ! 2),
                          d_type = obj_type (sample_objects ! 2),
                          d_summary = ''Analysis failed: '' @ message sample_failure,
                          d_showHoverMenu = obj_showHoverMenu (sample_objects ! 2),
                          d_error = True, d_usage = None\<rparr>
             \<and> (\<exists>out' tot'. run_batches 3 (\<lambda>s. False) (reversed_completion 3 5)
                                 steady_worker sample_objects
                                = Some (invoked, Inr (out', tot'))
                   \<and> length out' = length sample_objects
                   \<and> (\<forall>i < length sample_objects. i \<noteq> 2 \<longrightarrow> out ! i = out' ! i))"
    by (elim exE conjE) blast
  from returns obtain out tot where r: "r = Inr (out, tot)"
    by auto
  with shape obtain out' tot' where
    failed: "out ! 2 = \<lparr>d_id = obj_id (sample_objects ! 2),
                          d_title = obj_title (sample_objects ! 2),
                          d_type = obj_type (sample_objects ! 2),
                          d_summary = ''Analysis failed: '' @ message sample_failure,
                          d_showHoverMenu = obj_showHoverMenu (sample_objects ! 2),
                          d_error = True, d_usage = None\<rparr>"
    and other: "run_batches 3 (\<lambda>s. False) (reversed_completion 3 5) steady_worker sample_objects
                  = Some (invoked, Inr (out', tot'))"
    and same: "\<forall>i < length sample_objects. i \<noteq> 2 \<longrightarrow> out ! i = out' ! i"
    by auto
  show ?thesis
    using run r failed other same
    by (intro exI [of _ invoked] exI [of _ out] exI [of _ tot] exI [of _ out'] exI [of _ tot'])
      (simp add: sample_failure_def length_sample_objects)
qed




end
